theory Spec2Isabelle
  imports Main "HOL-Library.Monad_Syntax"
begin

section \<open>Seam carving of a greyscale raster: the C++ program as HOL functions\<close>

text \<open>
  The program is one translation unit: \<open>main\<close> loads a plain-text greyscale raster with
  \<open>initImageMap\<close>, computes the energy of every pixel (\<open>initEnergyMap\<close>), accumulates the
  energies from the top row down (\<open>initCumulativeEnergyMap\<close>) and removes one vertical
  seam from the image (\<open>seamCarver\<close>).

  Every grid is a \<open>vector<vector<int>>\<close>: a list of rows, each a list of \<open>int\<close>. Sizes
  (\<open>size_t\<close>) are \<open>nat\<close>. Reading or writing a vector outside its bounds and \<open>pop_back\<close>
  on an empty vector are undefined behaviour in C++; the model makes them a value: every
  function that indexes returns an \<open>option\<close>, and \<open>None\<close> stands for undefined behaviour.

  An \<open>int\<close> has 32 bits. The arithmetic on pixel values (differences, absolute values
  and sums in \<open>initEnergyMap\<close>, one sum in \<open>initCumulativeEnergyMap\<close>) is modelled on the
  integers with the two's complement wrap-around written out (\<open>int32\<close>): signed overflow
  is undefined in C++, and the program as it is built wraps. The indices of the loops
  stay below the sizes of the vectors; all other operations of the program compare
  values or move them.

  The directory holds the program in three revisions. The model follows the complete one,
  which has \<open>seamCarver\<close>; of the earlier revision only \<open>initImageMap\<close> and \<open>main\<close> are
  modelled, under the names \<open>initImageMap_earlier\<close> and \<open>main_earlier\<close>, since they differ
  in the check of the pixel range.
\<close>

type_synonym grid = "int list list"

subsection \<open>Vectors, loops and the library algorithms\<close>

text \<open>\<open>v[i]\<close> with an \<open>int\<close> index: the index is converted to \<open>size_t\<close>, so a negative one
  is far out of range.\<close>

definition vec_at :: "'a list \<Rightarrow> int \<Rightarrow> 'a option" where
  "vec_at v i = (if 0 \<le> i \<and> i < int (length v) then Some (v ! nat i) else None)"

text \<open>\<open>v[i] = x\<close>.\<close>

definition vec_set :: "'a list \<Rightarrow> int \<Rightarrow> 'a \<Rightarrow> 'a list option" where
  "vec_set v i x = (if 0 \<le> i \<and> i < int (length v) then Some (v[nat i := x]) else None)"

text \<open>\<open>v.pop_back()\<close>.\<close>

definition pop_back :: "'a list \<Rightarrow> 'a list option" where
  "pop_back v = (if v = [] then None else Some (butlast v))"

text \<open>The comparison \<open>k < v.size()\<close> of an \<open>int\<close> with a \<open>size_t\<close>: the \<open>int\<close> is converted to
  unsigned first, so a negative \<open>k\<close> is never below a size.\<close>

definition int_less_size :: "int \<Rightarrow> nat \<Rightarrow> bool" where
  "int_less_size k n = (0 \<le> k \<and> k < int n)"

text \<open>A \<open>for\<close> loop whose index runs through a fixed list of values, threading the state
  that the body updates; the loop stops at the first undefined step.\<close>

fun for_loop :: "nat list \<Rightarrow> (nat \<Rightarrow> 's \<Rightarrow> 's option) \<Rightarrow> 's \<Rightarrow> 's option" where
  "for_loop [] body s = Some s"
| "for_loop (i # is) body s = do { s' \<leftarrow> body i s; for_loop is body s' }"

text \<open>\<open>std::min_element\<close> followed by \<open>std::distance\<close> from \<open>begin()\<close>: the index of the first
  smallest element; on an empty range the result is \<open>end()\<close>, at distance 0. The scan keeps
  the smallest element met so far and replaces it only by a strictly smaller one.\<close>

primrec min_element_scan :: "int list \<Rightarrow> nat \<Rightarrow> int \<Rightarrow> nat \<Rightarrow> nat" where
  "min_element_scan [] first smallest_value smallest = smallest"
| "min_element_scan (x # xs) first smallest_value smallest =
     (if x < smallest_value then min_element_scan xs (Suc first) x first
      else min_element_scan xs (Suc first) smallest_value smallest)"

definition min_element :: "int list \<Rightarrow> nat" where
  "min_element v = (case v of [] \<Rightarrow> 0 | x # xs \<Rightarrow> min_element_scan xs 1 x 0)"

text \<open>\<open>*std::min_element(v.begin(), v.end())\<close>: dereferencing \<open>end()\<close> is undefined.\<close>

definition min_element_value :: "int list \<Rightarrow> int option" where
  "min_element_value v = vec_at v (int (min_element v))"

text \<open>\<open>std::find\<close> followed by \<open>std::distance\<close> from \<open>begin()\<close>: the index of the first element
  equal to the value, or the size of the vector when there is none.\<close>

fun find_distance :: "int list \<Rightarrow> int \<Rightarrow> nat" where
  "find_distance [] value = 0"
| "find_distance (x # xs) value = (if x = value then 0 else Suc (find_distance xs value))"

subsection \<open>Arithmetic on int\<close>

text \<open>The value that a result takes as an \<open>int\<close> of 32 bits: the one number of
  \<open>[-2\<^sup>3\<^sup>1, 2\<^sup>3\<^sup>1 - 1]\<close> that differs from it by a multiple of \<open>2\<^sup>3\<^sup>2\<close>.\<close>

definition int32 :: "int \<Rightarrow> int" where
  "int32 x = (x + 2147483648) mod 4294967296 - 2147483648"

text \<open>\<open>a + b\<close>, \<open>a - b\<close> and \<open>abs(a)\<close> on \<open>int\<close>.\<close>

definition int_add :: "int \<Rightarrow> int \<Rightarrow> int" where
  "int_add a b = int32 (a + b)"

definition int_sub :: "int \<Rightarrow> int \<Rightarrow> int" where
  "int_sub a b = int32 (a - b)"

definition int_abs :: "int \<Rightarrow> int" where
  "int_abs a = int32 \<bar>a\<bar>"

subsection \<open>Messages and the ways a run ends\<close>

text \<open>The messages the program writes to \<open>cerr\<close>, one constructor for each statement
  that writes, with the values it inserts into the text: the usage error of \<open>main\<close>, and
  in \<open>initImageMap\<close> the file that could not be opened, the format line that is not
  \<open>P2\<close>, the dimensions that could not be read, and the pixel outside
  \<open>[0, maxPixelValue]\<close>, which prints \<open>maxPixelValue\<close>.\<close>

datatype message =
    UsageError
  | OpenError string
  | FormatError string
  | DimensionError
  | RangeError int

text \<open>How a computation ends without returning to its caller: \<open>exit(n)\<close>, an exception
  nobody catches, or undefined behaviour.\<close>

datatype stop = Exit int | UncaughtException | UndefinedBehaviour

datatype 'a outcome = Returns 'a | Stops stop

subsection \<open>initImageMap\<close>

text \<open>What the library calls of \<open>initImageMap\<close> yield on a file that could be opened;
  the text-level reading itself (\<open>getline\<close>, \<open>peek\<close>, the string streams, \<open>stoi\<close>) is
  library code and outside the model. \<open>format_line\<close> is the first line; \<open>columns_read\<close> and
  \<open>rows_read\<close> are the values of \<open>columns\<close> and \<open>rows\<close> after
  \<open>dimensions >> columns >> rows\<close> (0 where nothing could be read); \<open>maximum_read\<close> is the
  result of \<open>stoi\<close> on the line of the maximum, \<open>None\<close> when \<open>stoi\<close> throws; \<open>pixel_read k\<close>
  is the value that the extraction number \<open>k\<close> of \<open>ssPixelData >> pixel\<close> leaves in
  \<open>pixel\<close>.\<close>

record raster =
  format_line :: string
  columns_read :: int
  rows_read :: int
  maximum_read :: "int option"
  pixel_read :: "nat \<Rightarrow> int"

text \<open>The inner loop of the population of the grid: \<open>n\<close> iterations are left, \<open>k\<close>
  extractions have been made. A pixel outside the range writes the message and exits
  with status 1.\<close>

fun read_row ::
  "int \<Rightarrow> (nat \<Rightarrow> int) \<Rightarrow> nat \<Rightarrow> nat \<Rightarrow> int list \<Rightarrow> message list \<times> (int list \<times> nat) outcome"
where
  "read_row maxPixelValue pixels 0 k rowResult = ([], Returns (rowResult, k))"
| "read_row maxPixelValue pixels (Suc n) k rowResult =
     (let pixel = pixels k in
      if pixel > maxPixelValue \<or> pixel < 0
      then ([RangeError maxPixelValue], Stops (Exit 1))
      else read_row maxPixelValue pixels n (Suc k) (rowResult @ [pixel]))"

text \<open>The outer loop: \<open>n\<close> rows are left.\<close>

fun read_rows ::
  "int \<Rightarrow> (nat \<Rightarrow> int) \<Rightarrow> nat \<Rightarrow> nat \<Rightarrow> nat \<Rightarrow> grid \<Rightarrow> message list \<times> grid outcome"
where
  "read_rows maxPixelValue pixels columns 0 k result = ([], Returns result)"
| "read_rows maxPixelValue pixels columns (Suc n) k result =
     (case read_row maxPixelValue pixels columns k [] of
        (msgs, Stops st) \<Rightarrow> (msgs, Stops st)
      | (msgs, Returns (rowResult, k')) \<Rightarrow>
          (case read_rows maxPixelValue pixels columns n k' (result @ [rowResult]) of
             (msgs', r) \<Rightarrow> (msgs @ msgs', r)))"

text \<open>\<open>initImageMap\<close>, on a file system that maps a name to what reading that file
  yields, \<open>None\<close> for a file that cannot be opened. The loops run \<open>rows\<close> and \<open>columns\<close>
  times, not at all for a negative count.\<close>

definition initImageMap :: "(string \<Rightarrow> raster option) \<Rightarrow> string \<Rightarrow> message list \<times> grid outcome" where
  "initImageMap files filename =
     (case files filename of
        None \<Rightarrow> ([OpenError filename], Stops (Exit 1))
      | Some file \<Rightarrow>
          if format_line file \<noteq> ''P2'' then ([FormatError (format_line file)], Stops (Exit 1))
          else if columns_read file = 0 \<or> rows_read file = 0
          then ([DimensionError], Stops (Exit 1))
          else (case maximum_read file of
                  None \<Rightarrow> ([], Stops UncaughtException)
                | Some maxPixelValue \<Rightarrow>
                    read_rows maxPixelValue (pixel_read file) (nat (columns_read file))
                      (nat (rows_read file)) 0 []))"

subsection \<open>initEnergyMap\<close>

text \<open>The body of the inner loop: the energy of pixel \<open>(i, j)\<close>.\<close>

definition pixelEnergy :: "grid \<Rightarrow> int \<Rightarrow> int \<Rightarrow> int option" where
  "pixelEnergy imageMap i j = do {
     row \<leftarrow> vec_at imageMap i;
     centre \<leftarrow> vec_at row j;
     left \<leftarrow> (if j - 1 \<ge> 0 then vec_at row (j - 1) else Some centre);
     right \<leftarrow> (if int_less_size (j + 1) (length row) then vec_at row (j + 1) else Some centre);
     let changeX = int_add (int_abs (int_sub centre left)) (int_abs (int_sub centre right));
     up \<leftarrow> (if i - 1 \<ge> 0 then do { upper_row \<leftarrow> vec_at imageMap (i - 1); vec_at upper_row j }
           else Some centre);
     down \<leftarrow> (if int_less_size (i + 1) (length imageMap)
             then do { below \<leftarrow> vec_at imageMap (i + 1); vec_at below j }
             else Some centre);
     let changeY = int_add (int_abs (int_sub centre up)) (int_abs (int_sub centre down));
     Some (int_add changeX changeY)
   }"

definition energyRow :: "grid \<Rightarrow> nat \<Rightarrow> int list option" where
  "energyRow imageMap i = do {
     row \<leftarrow> vec_at imageMap (int i);
     for_loop [0..<length row]
       (\<lambda>j rowResult. do { e \<leftarrow> pixelEnergy imageMap (int i) (int j); Some (rowResult @ [e]) })
       []
   }"

definition initEnergyMap :: "grid \<Rightarrow> grid option" where
  "initEnergyMap imageMap =
     for_loop [0..<length imageMap]
       (\<lambda>i result. do { rowResult \<leftarrow> energyRow imageMap i; Some (result @ [rowResult]) })
       []"

subsection \<open>initCumulativeEnergyMap\<close>

text \<open>The block marked \<open>bounds checking\<close> in the source, written out twice there (in
  \<open>initCumulativeEnergyMap\<close> and in \<open>seamCarver\<close>): the values of the two or three pixels of
  the row above that can continue a seam from column \<open>j\<close>, pushed in the order upper-left,
  upper, upper-right. The right-hand test compares \<open>j + 1\<close> with the size \<open>n\<close> of row \<open>i\<close>.\<close>

definition validSeamOriginList :: "int list \<Rightarrow> int \<Rightarrow> nat \<Rightarrow> int list option" where
  "validSeamOriginList upper_row j n = do {
     l1 \<leftarrow> (if j - 1 \<ge> 0 then do { x \<leftarrow> vec_at upper_row (j - 1); Some [x] } else Some []);
     x \<leftarrow> vec_at upper_row j;
     let l2 = l1 @ [x];
     (if int_less_size (j + 1) n
      then do { x \<leftarrow> vec_at upper_row (j + 1); Some (l2 @ [x]) } else Some l2)
   }"

text \<open>The body of the inner loop at pixel \<open>(i, j)\<close>: the smallest of these values is added
  to \<open>result[i][j]\<close>. The right-hand bound is taken from \<open>energyMap[i]\<close>, as in the source.\<close>

definition cumulativeCell :: "grid \<Rightarrow> int \<Rightarrow> int \<Rightarrow> grid \<Rightarrow> grid option" where
  "cumulativeCell energyMap i j result = do {
     upper_row \<leftarrow> vec_at result (i - 1);
     energyRow_i \<leftarrow> vec_at energyMap i;
     origins \<leftarrow> validSeamOriginList upper_row j (length energyRow_i);
     m \<leftarrow> min_element_value origins;
     row \<leftarrow> vec_at result i;
     cell \<leftarrow> vec_at row j;
     row' \<leftarrow> vec_set row j (int_add cell m);
     vec_set result i row'
   }"

text \<open>\<open>result\<close> starts as a copy of \<open>energyMap\<close>; the outer loop begins on the second row. The
  sizes that bound both loops are not changed by the body.\<close>

definition initCumulativeEnergyMap :: "grid \<Rightarrow> grid option" where
  "initCumulativeEnergyMap energyMap =
     for_loop [1..<length energyMap]
       (\<lambda>i result. do {
          row \<leftarrow> vec_at result (int i);
          for_loop [0..<length row] (\<lambda>j. cumulativeCell energyMap (int i) (int j)) result })
       energyMap"

subsection \<open>seamCarver\<close>

text \<open>The \<open>while\<close> loop that swaps the seam pixel with its right neighbour until it is the
  last element of the row. The bound \<open>n\<close> is \<open>cumulativeEnergyMap[i].size()\<close>; the row is
  \<open>imageMap[i]\<close>.\<close>

function swap_to_end :: "int list \<Rightarrow> int \<Rightarrow> nat \<Rightarrow> int list option" where
  "swap_to_end row seam_pixel_index n =
     (if int_less_size (seam_pixel_index + 1) n
      then do {
        a \<leftarrow> vec_at row seam_pixel_index;
        b \<leftarrow> vec_at row (seam_pixel_index + 1);
        row1 \<leftarrow> vec_set row seam_pixel_index b;
        row2 \<leftarrow> vec_set row1 (seam_pixel_index + 1) a;
        swap_to_end row2 (seam_pixel_index + 1) n }
      else Some row)"
  by pat_completeness auto
termination
  by (relation "measure (\<lambda>(row, k, n). nat (int n - k))") (auto simp: int_less_size_def)

text \<open>The trace-back of one row: from the seam column of row \<open>i\<close> to the one of row
  \<open>i - 1\<close>. The smallest of the two or three values above is computed, then looked up by
  value in the whole row above.\<close>

definition traceback :: "grid \<Rightarrow> int \<Rightarrow> int list \<Rightarrow> int list option" where
  "traceback cumulativeEnergyMap i seam_column_indices = do {
     c \<leftarrow> vec_at seam_column_indices i;
     upper_row \<leftarrow> vec_at cumulativeEnergyMap (i - 1);
     row_i \<leftarrow> vec_at cumulativeEnergyMap i;
     origins \<leftarrow> validSeamOriginList upper_row c (length row_i);
     seam_traceback_value \<leftarrow> min_element_value origins;
     let seam_traceback_index = int (find_distance upper_row seam_traceback_value);
     vec_set seam_column_indices (i - 1) seam_traceback_index
   }"

text \<open>One iteration of the main loop, on the pair of the image and the array of seam
  columns: remove the seam pixel of row \<open>i\<close>, then trace back to row \<open>i - 1\<close>.\<close>

definition carveRow :: "grid \<Rightarrow> nat \<Rightarrow> grid \<times> int list \<Rightarrow> (grid \<times> int list) option" where
  "carveRow cumulativeEnergyMap i state = (case state of (imageMap, seam_column_indices) \<Rightarrow> do {
     seam_pixel_index \<leftarrow> vec_at seam_column_indices (int i);
     row_i \<leftarrow> vec_at cumulativeEnergyMap (int i);
     row \<leftarrow> vec_at imageMap (int i);
     swapped \<leftarrow> swap_to_end row seam_pixel_index (length row_i);
     shorter \<leftarrow> pop_back swapped;
     imageMap' \<leftarrow> vec_set imageMap (int i) shorter;
     (if int i - 1 \<ge> 0
      then do {
        seam_column_indices' \<leftarrow> traceback cumulativeEnergyMap (int i) seam_column_indices;
        Some (imageMap', seam_column_indices') }
      else Some (imageMap', seam_column_indices))
   })"

text \<open>The whole function, returning the array of seam columns beside the image. The array
  \<open>int seam_column_indices[n] = { -1 }\<close> has its first element \<open>-1\<close> and the others 0. The
  loop index runs from \<open>n - 1\<close> down to 0. The image and the cumulative grid are two
  objects, as in \<open>main\<close>: shortening a row of the image leaves the cumulative grid as it
  is.\<close>

definition seamCarver_state :: "grid \<Rightarrow> grid \<Rightarrow> (grid \<times> int list) option" where
  "seamCarver_state imageMap cumulativeEnergyMap = do {
     let seam_column_indices = take (length cumulativeEnergyMap) [-1] @
                               replicate (length cumulativeEnergyMap - 1) 0;
     let num_rows = int (length cumulativeEnergyMap);
     last_row \<leftarrow> vec_at cumulativeEnergyMap (num_rows - 1);
     let seam_end_index = int (min_element last_row);
     seam_column_indices' \<leftarrow> vec_set seam_column_indices (num_rows - 1) seam_end_index;
     for_loop (rev [0..<length cumulativeEnergyMap]) (carveRow cumulativeEnergyMap)
       (imageMap, seam_column_indices')
   }"

text \<open>\<open>seamCarver\<close> itself changes \<open>imageMap\<close> in place and returns nothing else; the seam is
  the final content of its local array.\<close>

definition seamCarver :: "grid \<Rightarrow> grid \<Rightarrow> grid option" where
  "seamCarver imageMap cumulativeEnergyMap =
     map_option fst (seamCarver_state imageMap cumulativeEnergyMap)"

definition seam :: "grid \<Rightarrow> grid \<Rightarrow> int list option" where
  "seam imageMap cumulativeEnergyMap =
     map_option snd (seamCarver_state imageMap cumulativeEnergyMap)"

subsection \<open>main\<close>

text \<open>What \<open>main\<close> writes to \<open>cout\<close>: the banner and the four grids it displays, the first
  with the file name; the last two constructors are the two grids that \<open>main\<close> of the
  earlier revision displays.\<close>

datatype display =
    Banner
  | ImageMapFor string grid
  | EnergyMap grid
  | CumulativeEnergyMap grid
  | SeamCarvedImage grid
  | ImageMatrixFor string grid
  | DerivedEnergyMatrix grid

record run =
  cerr :: "message list"
  cout :: "display list"
  status :: "int outcome"

text \<open>\<open>main\<close> on the argument vector, \<open>argc\<close> being its length. The test of \<open>argc\<close> only
  writes. \<open>argv[1]\<close> becomes the \<open>string\<close> parameter of \<open>initImageMap\<close>; with fewer than two
  arguments it is a null pointer or lies beyond the vector, and the conversion is
  undefined.\<close>

definition main :: "(string \<Rightarrow> raster option) \<Rightarrow> string list \<Rightarrow> run" where
  "main files argv =
     (let usage = (if length argv \<noteq> 4 then [UsageError] else []) in
      case vec_at argv 1 of
        None \<Rightarrow> \<lparr>cerr = usage, cout = [Banner], status = Stops UndefinedBehaviour\<rparr>
      | Some filename \<Rightarrow>
         (case initImageMap files filename of
            (msgs, Stops st) \<Rightarrow> \<lparr>cerr = usage @ msgs, cout = [Banner], status = Stops st\<rparr>
          | (msgs, Returns I) \<Rightarrow>
             (case initEnergyMap I of
                None \<Rightarrow> \<lparr>cerr = usage @ msgs, cout = [Banner, ImageMapFor filename I],
                          status = Stops UndefinedBehaviour\<rparr>
              | Some E \<Rightarrow>
                 (case initCumulativeEnergyMap E of
                    None \<Rightarrow> \<lparr>cerr = usage @ msgs,
                              cout = [Banner, ImageMapFor filename I, EnergyMap E],
                              status = Stops UndefinedBehaviour\<rparr>
                  | Some CE \<Rightarrow>
                     (case seamCarver I CE of
                        None \<Rightarrow> \<lparr>cerr = usage @ msgs,
                                  cout = [Banner, ImageMapFor filename I, EnergyMap E,
                                          CumulativeEnergyMap CE],
                                  status = Stops UndefinedBehaviour\<rparr>
                      | Some I' \<Rightarrow> \<lparr>cerr = usage @ msgs,
                                    cout = [Banner, ImageMapFor filename I, EnergyMap E,
                                            CumulativeEnergyMap CE, SeamCarvedImage I'],
                                    status = Returns 0\<rparr>)))))"

subsection \<open>initImageMap and main of the earlier revision\<close>

text \<open>In the earlier revision (\<open>src/seamCarving.cpp\<close>) \<open>initImageMap\<close> reads the line of
  the maximum and drops it, and the two loops push every pixel as it is extracted.\<close>

fun read_row_earlier :: "(nat \<Rightarrow> int) \<Rightarrow> nat \<Rightarrow> nat \<Rightarrow> int list \<Rightarrow> int list \<times> nat" where
  "read_row_earlier pixels 0 k temp = (temp, k)"
| "read_row_earlier pixels (Suc n) k temp =
     (let pixel = pixels k in read_row_earlier pixels n (Suc k) (temp @ [pixel]))"

fun read_rows_earlier :: "(nat \<Rightarrow> int) \<Rightarrow> nat \<Rightarrow> nat \<Rightarrow> nat \<Rightarrow> grid \<Rightarrow> grid" where
  "read_rows_earlier pixels columns 0 k result = result"
| "read_rows_earlier pixels columns (Suc n) k result =
     (case read_row_earlier pixels columns k [] of
        (temp, k') \<Rightarrow> read_rows_earlier pixels columns n k' (result @ [temp]))"

definition initImageMap_earlier ::
  "(string \<Rightarrow> raster option) \<Rightarrow> string \<Rightarrow> message list \<times> grid outcome"
where
  "initImageMap_earlier files filename =
     (case files filename of
        None \<Rightarrow> ([OpenError filename], Stops (Exit 1))
      | Some file \<Rightarrow>
          if format_line file \<noteq> ''P2'' then ([FormatError (format_line file)], Stops (Exit 1))
          else if columns_read file = 0 \<or> rows_read file = 0
          then ([DimensionError], Stops (Exit 1))
          else ([], Returns (read_rows_earlier (pixel_read file) (nat (columns_read file))
                               (nat (rows_read file)) 0 [])))"

text \<open>\<open>main\<close> of that revision displays the image and its energies and returns; its
  \<open>initEnergyMap\<close> has the body of the complete program's.\<close>

definition main_earlier :: "(string \<Rightarrow> raster option) \<Rightarrow> string list \<Rightarrow> run" where
  "main_earlier files argv =
     (let usage = (if length argv \<noteq> 4 then [UsageError] else []) in
      case vec_at argv 1 of
        None \<Rightarrow> \<lparr>cerr = usage, cout = [Banner], status = Stops UndefinedBehaviour\<rparr>
      | Some filename \<Rightarrow>
         (case initImageMap_earlier files filename of
            (msgs, Stops st) \<Rightarrow> \<lparr>cerr = usage @ msgs, cout = [Banner], status = Stops st\<rparr>
          | (msgs, Returns I) \<Rightarrow>
             (case initEnergyMap I of
                None \<Rightarrow> \<lparr>cerr = usage @ msgs, cout = [Banner, ImageMatrixFor filename I],
                          status = Stops UndefinedBehaviour\<rparr>
              | Some E \<Rightarrow> \<lparr>cerr = usage @ msgs,
                           cout = [Banner, ImageMatrixFor filename I, DerivedEnergyMatrix E],
                           status = Returns 0\<rparr>)))"

section \<open>The notions of the specification\<close>

subsection \<open>Energy with duplicated border\<close>

text \<open>The energy as the specification words it: the four axis-aligned neighbours, each
  replaced by the pixel's own value when it falls outside the grid.\<close>

definition inside :: "grid \<Rightarrow> int \<Rightarrow> int \<Rightarrow> bool" where
  "inside g i j = (0 \<le> i \<and> i < int (length g) \<and> 0 \<le> j \<and> j < int (length (g ! nat i)))"

definition neighbour :: "grid \<Rightarrow> nat \<Rightarrow> nat \<Rightarrow> int \<Rightarrow> int \<Rightarrow> int" where
  "neighbour g i j di dj =
     (if inside g (int i + di) (int j + dj) then g ! nat (int i + di) ! nat (int j + dj)
      else g ! i ! j)"

definition duplicate_border_energy :: "grid \<Rightarrow> nat \<Rightarrow> nat \<Rightarrow> int" where
  "duplicate_border_energy g i j =
     \<bar>g ! i ! j - neighbour g i j 0 (-1)\<bar> + \<bar>g ! i ! j - neighbour g i j 0 1\<bar> +
     \<bar>g ! i ! j - neighbour g i j (-1) 0\<bar> + \<bar>g ! i ! j - neighbour g i j 1 0\<bar>"

subsection \<open>Parent candidates of the cumulative grid\<close>

text \<open>The columns among \<open>j - 1\<close>, \<open>j\<close>, \<open>j + 1\<close> that lie in \<open>[0, C - 1]\<close>, from left to
  right, and the smallest value a row holds at them.\<close>

definition candidate_columns :: "nat \<Rightarrow> nat \<Rightarrow> nat list" where
  "candidate_columns C j =
     map nat (filter (\<lambda>k. 0 \<le> k \<and> k < int C) [int j - 1, int j, int j + 1])"

definition min_parent :: "int list \<Rightarrow> nat \<Rightarrow> int" where
  "min_parent upper_row j =
     Min (set (map ((!) upper_row) (candidate_columns (length upper_row) j)))"

subsection \<open>Seams: adjacency and the reference backtrace\<close>

text \<open>The adjacency invariant of a seam, as the specification states it: the columns of
  consecutive rows differ by at most 1.\<close>

definition adjacent_seam :: "int list \<Rightarrow> bool" where
  "adjacent_seam s = list_all (\<lambda>i. \<bar>s ! Suc i - s ! i\<bar> \<le> 1) [0..<length s - 1]"

text \<open>The reference backtrace, as the specification words it. Among given columns of a
  row, the leftmost one whose value equals the minimum of the values at these columns.\<close>

definition leftmost_minimum :: "int list \<Rightarrow> nat list \<Rightarrow> nat" where
  "leftmost_minimum row columns =
     hd (filter (\<lambda>k. row ! k = Min (set (map ((!) row) columns))) columns)"

text \<open>Seed: the index of the minimum value in the last row, leftmost on ties.\<close>

definition reference_seed :: "int list \<Rightarrow> nat" where
  "reference_seed last_row = leftmost_minimum last_row [0..<length last_row]"

text \<open>Step: from the column \<open>j\<close> of a row to the column of the row above, the leftmost of
  the candidates \<open>j - 1\<close>, \<open>j\<close>, \<open>j + 1\<close> in range whose value is the candidates' minimum.\<close>

definition reference_step :: "int list \<Rightarrow> nat \<Rightarrow> nat" where
  "reference_step upper_row j =
     leftmost_minimum upper_row (candidate_columns (length upper_row) j)"

text \<open>The columns of the rows above, listed from the bottom up, starting from column \<open>j\<close>
  of the row below them.\<close>

primrec reference_above :: "grid \<Rightarrow> nat \<Rightarrow> nat list" where
  "reference_above [] j = []"
| "reference_above (upper_row # rows) j =
     reference_step upper_row j # reference_above rows (reference_step upper_row j)"

text \<open>The reference seam of a cumulative grid, one column per row, row 0 first.\<close>

definition reference_seam :: "grid \<Rightarrow> nat list" where
  "reference_seam cumulativeGrid =
     (case rev cumulativeGrid of
        [] \<Rightarrow> []
      | last_row # rows_above \<Rightarrow>
          rev (reference_seed last_row # reference_above rows_above (reference_seed last_row)))"

section \<open>Definitions for the proofs\<close>

subsection \<open>Loop invariants\<close>

text \<open>The energy as \<open>initEnergyMap\<close> computes it on a rectangular grid: the formula of the
  specification with every operation on \<open>int\<close>.\<close>

definition wrapped_energy :: "grid \<Rightarrow> nat \<Rightarrow> nat \<Rightarrow> int" where
  "wrapped_energy g i j =
     int_add
       (int_add (int_abs (int_sub (g ! i ! j) (neighbour g i j 0 (-1))))
                (int_abs (int_sub (g ! i ! j) (neighbour g i j 0 1))))
       (int_add (int_abs (int_sub (g ! i ! j) (neighbour g i j (-1) 0)))
                (int_abs (int_sub (g ! i ! j) (neighbour g i j 1 0))))"

text \<open>The invariant of the outer loop of \<open>initCumulativeEnergyMap\<close>, before row \<open>i\<close> is
  processed: rows below \<open>i\<close> are final, the others still hold the energies.\<close>

definition cumulative_inv :: "grid \<Rightarrow> nat \<Rightarrow> nat \<Rightarrow> grid \<Rightarrow> bool" where
  "cumulative_inv energyMap C i t \<longleftrightarrow>
     length t = length energyMap \<and> (\<forall>r<length energyMap. length (t ! r) = C) \<and>
     t ! 0 = energyMap ! 0 \<and>
     (\<forall>r. 0 < r \<and> r < i \<longrightarrow> (\<forall>c<C. t ! r ! c = int_add (energyMap ! r ! c) (min_parent (t ! (r - 1)) c))) \<and>
     (\<forall>r. i \<le> r \<and> r < length energyMap \<longrightarrow> t ! r = energyMap ! r)"

text \<open>The trace-back step of the code as a function of the row above and the seam column
  \<open>j\<close> of the current row: the first position, in the whole row above, of the smallest
  candidate value.\<close>

definition traceback_column :: "int list \<Rightarrow> nat \<Rightarrow> nat" where
  "traceback_column upper_row j = find_distance upper_row (min_parent upper_row j)"

text \<open>The row that is left when the element at position \<open>k\<close> is deleted.\<close>

definition delete_at :: "nat \<Rightarrow> 'a list \<Rightarrow> 'a list" where
  "delete_at k row = take k row @ drop (Suc k) row"

text \<open>The invariant of the main loop of \<open>seamCarver\<close>, before row \<open>k - 1\<close> is processed:
  rows from \<open>k\<close> on have lost their seam pixel, the rows before are untouched, and the
  seam columns from row \<open>k - 1\<close> on are set, in range and linked by the trace-back step.\<close>

definition carve_inv :: "grid \<Rightarrow> grid \<Rightarrow> nat \<Rightarrow> nat \<Rightarrow> grid \<times> int list \<Rightarrow> bool" where
  "carve_inv imageMap cumulativeEnergyMap C k state \<longleftrightarrow>
     (case state of (im, s) \<Rightarrow>
        length im = length cumulativeEnergyMap \<and> length s = length cumulativeEnergyMap \<and>
        (\<forall>r<k. im ! r = imageMap ! r) \<and>
        (\<forall>r. k \<le> r \<and> r < length cumulativeEnergyMap \<longrightarrow>
             im ! r = delete_at (nat (s ! r)) (imageMap ! r)) \<and>
        (\<forall>r. k \<le> Suc r \<and> r < length cumulativeEnergyMap \<longrightarrow> 0 \<le> s ! r \<and> s ! r < int C) \<and>
        s ! (length cumulativeEnergyMap - 1) =
          int (min_element (cumulativeEnergyMap ! (length cumulativeEnergyMap - 1))) \<and>
        (\<forall>r. k \<le> r \<and> 0 < r \<and> r < length cumulativeEnergyMap \<longrightarrow>
             s ! (r - 1) = int (traceback_column (cumulativeEnergyMap ! (r - 1)) (nat (s ! r)))))"

subsection \<open>Concrete inputs\<close>

text \<open>Concrete inputs for the examples: a file system with no file, one with a single
  file, and the extraction values of well-formed pixel data (0 once the data is
  exhausted).\<close>

definition no_files :: "string \<Rightarrow> raster option" where
  "no_files name = None"

definition single_file :: "string \<Rightarrow> raster \<Rightarrow> string \<Rightarrow> raster option" where
  "single_file name file n = (if n = name then Some file else None)"

definition pixels_of :: "int list \<Rightarrow> nat \<Rightarrow> int" where
  "pixels_of values k = (if k < length values then values ! k else 0)"

definition pgm :: "int \<Rightarrow> int \<Rightarrow> int \<Rightarrow> int list \<Rightarrow> raster" where
  "pgm columns rows maximum values =
     \<lparr>format_line = ''P2'', columns_read = columns, rows_read = rows,
      maximum_read = Some maximum, pixel_read = pixels_of values\<rparr>"

section \<open>Properties\<close>

subsection \<open>Vectors, loops and the library algorithms\<close>

lemma vec_at_int [simp]: "vec_at v (int k) = (if k < length v then Some (v ! k) else None)"
  by (simp add: vec_at_def)

lemma vec_set_int [simp]:
  "vec_set v (int k) x = (if k < length v then Some (v[k := x]) else None)"
  by (simp add: vec_set_def)

lemma int_less_size_int [simp]: "int_less_size (int k) n = (k < n)"
  by (simp add: int_less_size_def)

lemma vec_at_0 [simp]: "vec_at v 0 = (if v = [] then None else Some (v ! 0))"
  by (simp add: vec_at_def)

lemma vec_set_0 [simp]: "vec_set v 0 x = (if v = [] then None else Some (v[0 := x]))"
  by (simp add: vec_set_def)

lemma for_loop_push_back:
  "\<forall>i\<in>set is. f i = Some (g i) \<Longrightarrow>
   for_loop is (\<lambda>i acc. do { e \<leftarrow> f i; Some (acc @ [e]) }) acc = Some (acc @ map g is)"
  by (induction "is" arbitrary: acc) simp_all

lemma for_loop_upt_rule:
  assumes "a \<le> b" and "Inv a s"
    and "\<And>k t. a \<le> k \<Longrightarrow> k < b \<Longrightarrow> Inv k t \<Longrightarrow> \<exists>t'. body k t = Some t' \<and> Inv (Suc k) t'"
  shows "\<exists>s'. for_loop [a..<b] body s = Some s' \<and> Inv b s'"
  using assms
proof (induction "b - a" arbitrary: a s)
  case 0
  then show ?case by simp
next
  case (Suc d)
  then have lt: "a < b" by simp
  from Suc.prems(3)[of a s] lt Suc.prems(2) obtain t where t: "body a s = Some t" "Inv (Suc a) t"
    by auto
  have "\<exists>s'. for_loop [Suc a..<b] body t = Some s' \<and> Inv b s'"
  proof (rule Suc.hyps(1))
    show "d = b - Suc a" using Suc.hyps(2) by simp
    show "Suc a \<le> b" using lt by simp
    show "Inv (Suc a) t" by (rule t(2))
    show "\<And>k t. Suc a \<le> k \<Longrightarrow> k < b \<Longrightarrow> Inv k t \<Longrightarrow> \<exists>t'. body k t = Some t' \<and> Inv (Suc k) t'"
      using Suc.prems(3) by simp
  qed
  then show ?case using lt t(1) by (simp add: upt_conv_Cons)
qed

lemma for_loop_down_rule:
  assumes "Inv n s"
    and "\<And>k t. k < n \<Longrightarrow> Inv (Suc k) t \<Longrightarrow> \<exists>t'. body k t = Some t' \<and> Inv k t'"
  shows "\<exists>s'. for_loop (rev [0..<n]) body s = Some s' \<and> Inv 0 s'"
  using assms
proof (induction n arbitrary: s)
  case 0
  then show ?case by simp
next
  case (Suc n)
  from Suc.prems(2)[of n s] Suc.prems(1) obtain t where t: "body n s = Some t" "Inv n t"
    by auto
  have "\<exists>s'. for_loop (rev [0..<n]) body t = Some s' \<and> Inv 0 s'"
    by (rule Suc.IH[OF t(2)]) (use Suc.prems(2) in simp)
  then show ?case using t(1) by simp
qed

lemma min_element_scan_props:
  assumes "smallest < first" "sv = pre ! smallest" "length pre = first"
    "\<forall>k<length pre. sv \<le> pre ! k" "\<forall>k<smallest. sv < pre ! k"
  shows "min_element_scan xs first sv smallest < length (pre @ xs) \<and>
         (\<forall>k<length (pre @ xs). (pre @ xs) ! min_element_scan xs first sv smallest \<le> (pre @ xs) ! k) \<and>
         (\<forall>k<min_element_scan xs first sv smallest.
              (pre @ xs) ! min_element_scan xs first sv smallest < (pre @ xs) ! k)"
  using assms
proof (induction xs arbitrary: first sv smallest pre)
  case Nil
  then show ?case by auto
next
  case (Cons x xs)
  show ?case
  proof (cases "x < sv")
    case True
    have "min_element_scan xs (Suc first) x first < length ((pre @ [x]) @ xs) \<and>
         (\<forall>k<length ((pre @ [x]) @ xs). ((pre @ [x]) @ xs) ! min_element_scan xs (Suc first) x first \<le> ((pre @ [x]) @ xs) ! k) \<and>
         (\<forall>k<min_element_scan xs (Suc first) x first.
              ((pre @ [x]) @ xs) ! min_element_scan xs (Suc first) x first < ((pre @ [x]) @ xs) ! k)"
    proof (rule Cons.IH)
      show "first < Suc first" by simp
      show "x = (pre @ [x]) ! first" using Cons.prems(3) by (simp add: nth_append)
      show "length (pre @ [x]) = Suc first" using Cons.prems(3) by simp
      show "\<forall>k<length (pre @ [x]). x \<le> (pre @ [x]) ! k"
        using Cons.prems True by (auto simp: nth_append less_Suc_eq)
      show "\<forall>k<first. x < (pre @ [x]) ! k"
        using Cons.prems True by (auto simp: nth_append)
    qed
    then show ?thesis using True by simp
  next
    case False
    have "min_element_scan xs (Suc first) sv smallest < length ((pre @ [x]) @ xs) \<and>
         (\<forall>k<length ((pre @ [x]) @ xs). ((pre @ [x]) @ xs) ! min_element_scan xs (Suc first) sv smallest \<le> ((pre @ [x]) @ xs) ! k) \<and>
         (\<forall>k<min_element_scan xs (Suc first) sv smallest.
              ((pre @ [x]) @ xs) ! min_element_scan xs (Suc first) sv smallest < ((pre @ [x]) @ xs) ! k)"
    proof (rule Cons.IH)
      show "smallest < Suc first" using Cons.prems(1) by simp
      show "sv = (pre @ [x]) ! smallest" using Cons.prems by (simp add: nth_append)
      show "length (pre @ [x]) = Suc first" using Cons.prems(3) by simp
      show "\<forall>k<length (pre @ [x]). sv \<le> (pre @ [x]) ! k"
        using Cons.prems False by (auto simp: nth_append less_Suc_eq)
      show "\<forall>k<smallest. sv < (pre @ [x]) ! k"
        using Cons.prems by (auto simp: nth_append)
    qed
    then show ?thesis using False by simp
  qed
qed

lemma min_element_props:
  assumes "v \<noteq> []"
  shows "min_element v < length v" 
    and "\<forall>k<length v. v ! min_element v \<le> v ! k"
    and "\<forall>k<min_element v. v ! min_element v < v ! k"
proof -
  obtain x xs where v: "v = x # xs" using assms by (cases v) auto
  have "min_element_scan xs 1 x 0 < length ([x] @ xs) \<and>
         (\<forall>k<length ([x] @ xs). ([x] @ xs) ! min_element_scan xs 1 x 0 \<le> ([x] @ xs) ! k) \<and>
         (\<forall>k<min_element_scan xs 1 x 0.
              ([x] @ xs) ! min_element_scan xs 1 x 0 < ([x] @ xs) ! k)"
    by (rule min_element_scan_props) auto
  then show "min_element v < length v" 
    and "\<forall>k<length v. v ! min_element v \<le> v ! k"
    and "\<forall>k<min_element v. v ! min_element v < v ! k"
    by (simp_all add: v min_element_def)
qed

lemma min_element_value_Min:
  assumes "v \<noteq> []"
  shows "min_element_value v = Some (Min (set v))"
proof -
  have "v ! min_element v = Min (set v)"
  proof (rule sym, rule Min_eqI)
    show "finite (set v)" by simp
    show "\<And>y. y \<in> set v \<Longrightarrow> v ! min_element v \<le> y"
      using min_element_props(2)[OF assms] by (auto simp: in_set_conv_nth)
    show "v ! min_element v \<in> set v"
      using min_element_props(1)[OF assms] by simp
  qed
  then show ?thesis using min_element_props(1)[OF assms] by (simp add: min_element_value_def)
qed

lemma find_distance_props:
  assumes "x \<in> set v"
  shows "find_distance v x < length v" and "v ! find_distance v x = x"
    and "\<forall>k<find_distance v x. v ! k \<noteq> x"
  using assms
proof (induction v)
  case Nil
  { case 1 then show ?case by simp }
  { case 2 then show ?case by simp }
  { case 3 then show ?case by simp }
next
  case (Cons a v)
  { case 1 then show ?case using Cons.IH(1) by auto }
  { case 2 then show ?case using Cons.IH(2) by auto }
  { case 3 then show ?case using Cons.IH(3) by (auto simp: nth_Cons split: nat.splits) }
qed

subsection \<open>initImageMap: the range check\<close>

lemma all_less_add:
  "(\<forall>t<a + b. Q t) \<longleftrightarrow> (\<forall>t<a. Q t) \<and> (\<forall>t<b. Q (a + t))" for a b :: nat
proof
  assume h: "\<forall>t<a + b. Q t"
  show "(\<forall>t<a. Q t) \<and> (\<forall>t<b. Q (a + t))" using h by simp
next
  assume h: "(\<forall>t<a. Q t) \<and> (\<forall>t<b. Q (a + t))"
  show "\<forall>t<a + b. Q t"
  proof (intro allI impI)
    fix t assume t: "t < a + b"
    show "Q t"
    proof (cases "t < a")
      case True
      then show ?thesis using h by simp
    next
      case False
      then have "t - a < b" "t = a + (t - a)" using t by simp_all
      then show ?thesis using h by metis
    qed
  qed
qed

lemma read_row_result:
  "read_row m px n k acc =
     (if \<forall>t<n. 0 \<le> px (k + t) \<and> px (k + t) \<le> m
      then ([], Returns (acc @ map (\<lambda>t. px (k + t)) [0..<n], k + n))
      else ([RangeError m], Stops (Exit 1)))"
proof (induction n arbitrary: k acc)
  case 0
  show ?case by simp
next
  case (Suc n)
  have split: "(\<forall>t<Suc n. 0 \<le> px (k + t) \<and> px (k + t) \<le> m) \<longleftrightarrow>
        (0 \<le> px k \<and> px k \<le> m) \<and> (\<forall>t<n. 0 \<le> px (Suc k + t) \<and> px (Suc k + t) \<le> m)"
    by (simp add: All_less_Suc2)
  have cells: "map (\<lambda>t. px (k + t)) [0..<Suc n] = px k # map (\<lambda>t. px (Suc k + t)) [0..<n]"
    by (simp add: map_upt_Suc del: upt_Suc)
  show ?case
    unfolding split cells
    by (simp add: Suc.IH Let_def not_le del: upt_Suc) auto
qed

lemma read_rows_result:
  "read_rows m px c n k acc =
     (if \<forall>t<n * c. 0 \<le> px (k + t) \<and> px (k + t) \<le> m
      then ([], Returns (acc @ map (\<lambda>i. map (\<lambda>j. px (k + i * c + j)) [0..<c]) [0..<n]))
      else ([RangeError m], Stops (Exit 1)))"
proof (induction n arbitrary: k acc)
  case 0
  show ?case by simp
next
  case (Suc n)
  have split: "(\<forall>t<Suc n * c. 0 \<le> px (k + t) \<and> px (k + t) \<le> m) \<longleftrightarrow>
        (\<forall>t<c. 0 \<le> px (k + t) \<and> px (k + t) \<le> m) \<and>
        (\<forall>t<n * c. 0 \<le> px (k + c + t) \<and> px (k + c + t) \<le> m)"
    using all_less_add[of c "n * c" "\<lambda>t. 0 \<le> px (k + t) \<and> px (k + t) \<le> m"]
    by (simp add: add.assoc)
  have rows: "map (\<lambda>i. map (\<lambda>j. px (k + i * c + j)) [0..<c]) [0..<Suc n] =
      map (\<lambda>j. px (k + j)) [0..<c] # map (\<lambda>i. map (\<lambda>j. px (k + c + i * c + j)) [0..<c]) [0..<n]"
    by (simp add: map_upt_Suc add.assoc add.left_commute del: upt_Suc)
  show ?case
    unfolding split rows
    by (simp add: read_row_result Suc.IH del: upt_Suc)
qed

lemma initImageMap_returns_silent:
  assumes "initImageMap files filename = (msgs, Returns I)"
  shows "msgs = []"
  using assms
  by (auto simp: initImageMap_def read_rows_result split: option.splits if_splits)

text \<open>
  Claim C8. For every parsed pixel outside \<open>[0, maxValue]\<close> the program reports the bound
  and exits with a status that is not 0; pixels inside are accepted. This holds for the
  complete program: when the header has been read (the file opens, its format line is
  \<open>P2\<close>, both dimensions are not 0 and the maximum is the number \<open>m\<close>), a value outside
  \<open>[0, m]\<close> among the \<open>rows \<times> columns\<close> values the program extracts makes \<open>initImageMap\<close>
  write the range message with the bound \<open>m\<close> and exit with status 1; when all of them
  are inside, it writes nothing and returns the grid of these values. The earlier
  revision has no such check and accepts every value.
\<close>

theorem initImageMap_range_check:
  assumes "files filename = Some file" and "format_line file = ''P2''"
    and "columns_read file \<noteq> 0" and "rows_read file \<noteq> 0" and "maximum_read file = Some m"
  shows "initImageMap files filename =
     (if \<forall>k < nat (rows_read file) * nat (columns_read file).
           0 \<le> pixel_read file k \<and> pixel_read file k \<le> m
      then ([], Returns (map (\<lambda>i. map (\<lambda>j. pixel_read file (i * nat (columns_read file) + j))
                                    [0..<nat (columns_read file)])
                            [0..<nat (rows_read file)]))
      else ([RangeError m], Stops (Exit 1)))"
  using assms by (simp add: initImageMap_def read_rows_result)

theorem initImageMap_range_check_witness:
  "initImageMap (single_file ''a.pgm'' (pgm 3 2 255 [0, 0, 1, 256, 0, 1])) ''a.pgm'' =
     ([RangeError 255], Stops (Exit 1)) \<and>
   initImageMap (single_file ''a.pgm'' (pgm 1 1 255 [5])) ''a.pgm'' = ([], Returns [[5]])"
proof -
  let ?bad = "pgm 3 2 255 [0, 0, 1, 256, 0, 1]"
  let ?good = "pgm 1 1 255 [5]"
  have b: "single_file ''a.pgm'' ?bad ''a.pgm'' = Some ?bad" "format_line ?bad = ''P2''"
    "columns_read ?bad \<noteq> 0" "rows_read ?bad \<noteq> 0" "maximum_read ?bad = Some 255"
    by (simp_all add: single_file_def pgm_def)
  have g: "single_file ''a.pgm'' ?good ''a.pgm'' = Some ?good" "format_line ?good = ''P2''"
    "columns_read ?good \<noteq> 0" "rows_read ?good \<noteq> 0" "maximum_read ?good = Some 255"
    by (simp_all add: single_file_def pgm_def)
  have "\<not> (0 \<le> pixel_read ?bad 3 \<and> pixel_read ?bad 3 \<le> 255)"
    by (simp add: pgm_def pixels_of_def)
  moreover have "(3::nat) < nat (rows_read ?bad) * nat (columns_read ?bad)"
    by (simp add: pgm_def)
  ultimately have bad: "\<not> (\<forall>k < nat (rows_read ?bad) * nat (columns_read ?bad).
           0 \<le> pixel_read ?bad k \<and> pixel_read ?bad k \<le> 255)"
    by blast
  have good: "\<forall>k < nat (rows_read ?good) * nat (columns_read ?good).
           0 \<le> pixel_read ?good k \<and> pixel_read ?good k \<le> 255"
    by (simp add: pgm_def pixels_of_def)
  have "initImageMap (single_file ''a.pgm'' ?bad) ''a.pgm'' = ([RangeError 255], Stops (Exit 1))"
    by (subst initImageMap_range_check[of "single_file ''a.pgm'' ?bad" "''a.pgm''" ?bad 255, OF b])
      (rule if_not_P[OF bad])
  moreover have "initImageMap (single_file ''a.pgm'' ?good) ''a.pgm'' = ([], Returns [[5]])"
    using initImageMap_range_check[of "single_file ''a.pgm'' ?good" "''a.pgm''" ?good 255, OF g] good
    by (simp add: pgm_def pixels_of_def)
  ultimately show ?thesis by simp
qed

theorem initImageMap_earlier_no_range_check:
  "initImageMap_earlier (single_file ''a.pgm'' (pgm 1 1 255 [256])) ''a.pgm'' =
     ([], Returns [[256]]) \<and>
   main_earlier (single_file ''a.pgm'' (pgm 1 1 255 [256])) [''./a'', ''a.pgm'', ''0'', ''0''] =
     \<lparr>cerr = [],
      cout = [Banner, ImageMatrixFor ''a.pgm'' [[256]], DerivedEnergyMatrix [[0]]],
      status = Returns 0\<rparr>"
  by code_simp

subsection \<open>Arithmetic on int\<close>

lemma int32_id: "- 2147483648 \<le> x \<Longrightarrow> x \<le> 2147483647 \<Longrightarrow> int32 x = x"
  by (simp add: int32_def)

lemma int_sub_abs_exact:
  assumes "0 \<le> a" "a \<le> M" "0 \<le> b" "b \<le> M" "M \<le> 2147483647"
  shows "int_abs (int_sub a b) = \<bar>a - b\<bar>"
proof -
  have "int_sub a b = a - b" unfolding int_sub_def using assms by (intro int32_id) linarith+
  moreover have "int32 \<bar>a - b\<bar> = \<bar>a - b\<bar>" using assms by (intro int32_id) linarith+
  ultimately show ?thesis by (simp add: int_abs_def)
qed

lemma int_add_exact:
  assumes "0 \<le> a" "0 \<le> b" "a + b \<le> 2147483647"
  shows "int_add a b = a + b"
  unfolding int_add_def using assms by (intro int32_id) linarith+

subsection \<open>initEnergyMap: the energy of every pixel\<close>

lemma pixelEnergy_rect:
  assumes rect: "\<forall>row\<in>set imageMap. length row = C" and i: "i < length imageMap" and j: "j < C"
  shows "pixelEnergy imageMap (int i) (int j) = Some (wrapped_energy imageMap i j)"
proof -
  have len: "\<And>r. r < length imageMap \<Longrightarrow> length (imageMap ! r) = C"
    using rect by simp
  have li: "length (imageMap ! i) = C" using len i by simp
  have left: "(if int j - 1 \<ge> 0 then vec_at (imageMap ! i) (int j - 1) else Some (imageMap ! i ! j))
        = Some (neighbour imageMap i j 0 (-1))"
    using i j li by (auto simp: vec_at_def neighbour_def inside_def)
  have right: "(if int_less_size (int j + 1) C then vec_at (imageMap ! i) (int j + 1) else Some (imageMap ! i ! j))
        = Some (neighbour imageMap i j 0 1)"
    using i j li by (auto simp: vec_at_def neighbour_def inside_def int_less_size_def nat_add_distrib)
  have up: "(if int i - 1 \<ge> 0 then do { upper_row \<leftarrow> vec_at imageMap (int i - 1); vec_at upper_row (int j) }
           else Some (imageMap ! i ! j)) = Some (neighbour imageMap i j (-1) 0)"
  proof (cases "i = 0")
    case True
    then show ?thesis by (simp add: neighbour_def inside_def)
  next
    case False
    then have "nat (int i - 1) < length imageMap" using i by simp
    then have "length (imageMap ! nat (int i - 1)) = C" by (rule len)
    then show ?thesis using False i j by (auto simp: vec_at_def neighbour_def inside_def)
  qed
  have down: "(if int_less_size (int i + 1) (length imageMap)
             then do { below \<leftarrow> vec_at imageMap (int i + 1); vec_at below (int j) }
             else Some (imageMap ! i ! j)) = Some (neighbour imageMap i j 1 0)"
  proof (cases "Suc i < length imageMap")
    case True
    then have "length (imageMap ! Suc i) = C" by (rule len)
    moreover have "nat (int i + 1) = Suc i" by simp
    ultimately show ?thesis using True j
      by (auto simp: vec_at_def neighbour_def inside_def int_less_size_def)
  next
    case False
    then show ?thesis by (auto simp: neighbour_def inside_def int_less_size_def)
  qed
  show ?thesis
    unfolding pixelEnergy_def
    using i j li left right up down
    by (simp add: wrapped_energy_def Let_def)
qed

lemma energyRow_rect:
  assumes rect: "\<forall>row\<in>set imageMap. length row = C" and i: "i < length imageMap"
  shows "energyRow imageMap i = Some (map (wrapped_energy imageMap i) [0..<C])"
proof -
  have li: "length (imageMap ! i) = C" using rect i by simp
  have "for_loop [0..<C]
       (\<lambda>j rowResult. do { e \<leftarrow> pixelEnergy imageMap (int i) (int j); Some (rowResult @ [e]) }) []
     = Some ([] @ map (wrapped_energy imageMap i) [0..<C])"
    by (rule for_loop_push_back) (simp add: pixelEnergy_rect[OF rect i])
  then show ?thesis using i li by (simp add: energyRow_def)
qed

lemma initEnergyMap_rect:
  assumes rect: "\<forall>row\<in>set imageMap. length row = C"
  shows "initEnergyMap imageMap =
     Some (map (\<lambda>i. map (wrapped_energy imageMap i) [0..<C]) [0..<length imageMap])"
proof -
  have "for_loop [0..<length imageMap]
       (\<lambda>i result. do { rowResult \<leftarrow> energyRow imageMap i; Some (result @ [rowResult]) }) []
     = Some ([] @ map (\<lambda>i. map (wrapped_energy imageMap i) [0..<C]) [0..<length imageMap])"
    by (rule for_loop_push_back) (simp add: energyRow_rect[OF rect])
  then show ?thesis by (simp add: initEnergyMap_def)
qed

lemma duplicate_border_energy_nonneg: "0 \<le> duplicate_border_energy g i j"
  by (simp add: duplicate_border_energy_def)

lemma neighbour_in_grid:
  assumes "i < length g" and "j < length (g ! i)"
  shows "\<exists>row\<in>set g. neighbour g i j di dj \<in> set row"
proof (cases "inside g (int i + di) (int j + dj)")
  case True
  then have a: "nat (int i + di) < length g"
    and b: "nat (int j + dj) < length (g ! nat (int i + di))"
    by (auto simp: inside_def)
  have "g ! nat (int i + di) \<in> set g" using a by simp
  moreover have "g ! nat (int i + di) ! nat (int j + dj) \<in> set (g ! nat (int i + di))"
    using b by simp
  ultimately show ?thesis using True by (auto simp: neighbour_def)
next
  case False
  have "g ! i \<in> set g" "g ! i ! j \<in> set (g ! i)" using assms by simp_all
  then show ?thesis using False by (auto simp: neighbour_def)
qed

lemma duplicate_border_energy_range:
  assumes "i < length g" and "j < length (g ! i)"
    and bound: "\<forall>row\<in>set g. \<forall>p\<in>set row. 0 \<le> p \<and> p \<le> M"
  shows "0 \<le> duplicate_border_energy g i j \<and> duplicate_border_energy g i j \<le> 4 * M"
proof -
  have c: "0 \<le> g ! i ! j \<and> g ! i ! j \<le> M"
    using assms by (meson nth_mem)
  have n: "0 \<le> neighbour g i j di dj \<and> neighbour g i j di dj \<le> M" for di dj
    using neighbour_in_grid[OF assms(1,2), of di dj] bound by blast
  have d: "\<bar>g ! i ! j - neighbour g i j di dj\<bar> \<le> M" for di dj
    using c n[of di dj] by linarith
  show ?thesis
    unfolding duplicate_border_energy_def
    using d[of 0 "-1"] d[of 0 1] d[of "-1" 0] d[of 1 0] by linarith
qed

lemma wrapped_energy_exact:
  assumes "i < length g" and "j < length (g ! i)"
    and bound: "\<forall>row\<in>set g. \<forall>p\<in>set row. 0 \<le> p \<and> p \<le> M"
    and M: "4 * M \<le> 2147483647"
  shows "wrapped_energy g i j = duplicate_border_energy g i j"
proof -
  have c: "0 \<le> g ! i ! j" "g ! i ! j \<le> M"
    using assms(1,2) bound by (meson nth_mem)+
  have M0: "0 \<le> M" using c by linarith
  have M1: "M \<le> 2147483647" using M M0 by linarith
  have n: "0 \<le> neighbour g i j di dj \<and> neighbour g i j di dj \<le> M" for di dj
    using neighbour_in_grid[OF assms(1,2), of di dj] bound by blast
  have d: "int_abs (int_sub (g ! i ! j) (neighbour g i j di dj)) = \<bar>g ! i ! j - neighbour g i j di dj\<bar>"
    for di dj
    using c n[of di dj] M1 by (intro int_sub_abs_exact[where M = M]) simp_all
  have r: "\<bar>g ! i ! j - neighbour g i j di dj\<bar> \<le> M" for di dj
    using c n[of di dj] by linarith
  have x: "int_add \<bar>g ! i ! j - neighbour g i j 0 (-1)\<bar> \<bar>g ! i ! j - neighbour g i j 0 1\<bar> =
           \<bar>g ! i ! j - neighbour g i j 0 (-1)\<bar> + \<bar>g ! i ! j - neighbour g i j 0 1\<bar>"
    using r[of 0 "-1"] r[of 0 1] M by (intro int_add_exact) linarith+
  have y: "int_add \<bar>g ! i ! j - neighbour g i j (-1) 0\<bar> \<bar>g ! i ! j - neighbour g i j 1 0\<bar> =
           \<bar>g ! i ! j - neighbour g i j (-1) 0\<bar> + \<bar>g ! i ! j - neighbour g i j 1 0\<bar>"
    using r[of "-1" 0] r[of 1 0] M by (intro int_add_exact) linarith+
  have z: "int_add (\<bar>g ! i ! j - neighbour g i j 0 (-1)\<bar> + \<bar>g ! i ! j - neighbour g i j 0 1\<bar>)
                   (\<bar>g ! i ! j - neighbour g i j (-1) 0\<bar> + \<bar>g ! i ! j - neighbour g i j 1 0\<bar>) =
           (\<bar>g ! i ! j - neighbour g i j 0 (-1)\<bar> + \<bar>g ! i ! j - neighbour g i j 0 1\<bar>) +
           (\<bar>g ! i ! j - neighbour g i j (-1) 0\<bar> + \<bar>g ! i ! j - neighbour g i j 1 0\<bar>)"
    using r[of 0 "-1"] r[of 0 1] r[of "-1" 0] r[of 1 0] M by (intro int_add_exact) linarith+
  show ?thesis
    unfolding wrapped_energy_def duplicate_border_energy_def d x y z by simp
qed

text \<open>
  Claim C3. For every rectangular, non-empty intensity grid, \<open>initEnergyMap\<close> returns a grid
  of the same shape whose cell \<open>(i, j)\<close> is the sum of the absolute differences between
  the pixel and its left, right, upper and lower neighbour, a neighbour outside the grid
  being replaced by the pixel's own value; hence every entry is non-negative, and a grid
  of one pixel has energy 0. This holds for the grids whose values lie in \<open>[0, M]\<close> with
  \<open>4 M \<le> 2\<^sup>3\<^sup>1 - 1\<close>, where no sum leaves the range of \<open>int\<close>.
\<close>

theorem initEnergyMap_duplicate_border:
  assumes "imageMap \<noteq> []" and "0 < C" and "\<forall>row\<in>set imageMap. length row = C"
    and "\<forall>row\<in>set imageMap. \<forall>p\<in>set row. 0 \<le> p \<and> p \<le> M"
    and "4 * M \<le> 2147483647"
  shows "\<exists>E. initEnergyMap imageMap = Some E \<and> length E = length imageMap \<and>
           (\<forall>i<length imageMap. length (E ! i) = C \<and>
              (\<forall>j<C. E ! i ! j = duplicate_border_energy imageMap i j \<and> 0 \<le> E ! i ! j)) \<and>
           (length imageMap = 1 \<and> C = 1 \<longrightarrow> E = [[0]])"
proof -
  let ?E = "map (\<lambda>i. map (wrapped_energy imageMap i) [0..<C]) [0..<length imageMap]"
  have ret: "initEnergyMap imageMap = Some ?E"
    by (rule initEnergyMap_rect) (rule assms(3))
  have exact: "wrapped_energy imageMap i j = duplicate_border_energy imageMap i j"
    if "i < length imageMap" "j < C" for i j
    by (rule wrapped_energy_exact[where M = M]) (use that assms(3,4,5) in simp_all)
  have cells: "\<forall>i<length imageMap. length (?E ! i) = C \<and>
              (\<forall>j<C. ?E ! i ! j = duplicate_border_energy imageMap i j \<and> 0 \<le> ?E ! i ! j)"
    using exact by (simp add: duplicate_border_energy_nonneg)
  have one: "length imageMap = 1 \<and> C = 1 \<longrightarrow> ?E = [[0]]"
  proof
    assume h: "length imageMap = 1 \<and> C = 1"
    then have "wrapped_energy imageMap 0 0 = duplicate_border_energy imageMap 0 0"
      using exact[of 0 0] by simp
    moreover have "duplicate_border_energy imageMap 0 0 = 0"
      using h assms(3) by (auto simp: duplicate_border_energy_def neighbour_def inside_def)
    ultimately show "?E = [[0]]" using h by simp
  qed
  have len: "length ?E = length imageMap" by simp
  have "initEnergyMap imageMap = Some ?E \<and> length ?E = length imageMap \<and>
           (\<forall>i<length imageMap. length (?E ! i) = C \<and>
              (\<forall>j<C. ?E ! i ! j = duplicate_border_energy imageMap i j \<and> 0 \<le> ?E ! i ! j)) \<and>
           (length imageMap = 1 \<and> C = 1 \<longrightarrow> ?E = [[0]])"
    using ret len cells one by (intro conjI)
  then show ?thesis by (rule exI)
qed

theorem initEnergyMap_duplicate_border_witness:
  "[[1, 2, 3], [4, 5, 6], [7, 8, 9]] \<noteq> ([] :: grid) \<and> (0::nat) < 3 \<and>
   list_all (\<lambda>row. length row = 3) [[1, 2, 3], [4, 5, 6], [7, 8, 9 :: int]] \<and>
   list_all (list_all (\<lambda>p. 0 \<le> p \<and> p \<le> 9)) [[1, 2, 3], [4, 5, 6], [7, 8, 9 :: int]] \<and>
   4 * (9 :: int) \<le> 2147483647 \<and>
   (\<exists>E. initEnergyMap [[1, 2, 3], [4, 5, 6], [7, 8, 9]] = Some E \<and> length E = 3 \<and>
         E ! 1 ! 1 = 8 \<and> 0 \<le> E ! 1 ! 1)"
proof -
  let ?I = "[[1, 2, 3], [4, 5, 6], [7, 8, 9 :: int]]"
  have h1: "?I \<noteq> []" by simp
  have h2: "(0::nat) < 3" by simp
  have h3: "\<forall>row\<in>set ?I. length row = 3" by simp
  have h4: "\<forall>row\<in>set ?I. \<forall>p\<in>set row. 0 \<le> p \<and> p \<le> 9" by simp
  have h5: "4 * (9 :: int) \<le> 2147483647" by simp
  from initEnergyMap_duplicate_border[OF h1 h2 h3 h4 h5]
  obtain E where E: "initEnergyMap ?I = Some E" "length E = length ?I"
    "\<forall>i<length ?I. length (E ! i) = 3 \<and>
        (\<forall>j<3. E ! i ! j = duplicate_border_energy ?I i j \<and> 0 \<le> E ! i ! j)"
    by blast
  have "(1::nat) < length ?I" by simp
  with E(3) have "\<forall>j<3. E ! 1 ! j = duplicate_border_energy ?I 1 j \<and> 0 \<le> E ! 1 ! j"
    by blast
  moreover have "(1::nat) < 3" by simp
  ultimately have "E ! 1 ! 1 = duplicate_border_energy ?I 1 1 \<and> 0 \<le> E ! 1 ! 1"
    by blast
  moreover have "duplicate_border_energy ?I 1 1 = 8"
    by (simp add: duplicate_border_energy_def neighbour_def inside_def)
  ultimately show ?thesis using h1 h2 h3 E(1,2) by simp
qed

theorem initEnergyMap_overflow:
  "initEnergyMap [[0, 2147483647, 0]] = Some [[2147483647, - 2, 2147483647]] \<and>
   duplicate_border_energy [[0, 2147483647, 0]] 0 1 = 4294967294"
  by code_simp

subsection \<open>initCumulativeEnergyMap: the recurrence\<close>

lemma validSeamOriginList_candidates:
  assumes j: "j < length upper_row"
  shows "validSeamOriginList upper_row (int j) (length upper_row)
         = Some (map ((!) upper_row) (candidate_columns (length upper_row) j))"
proof -
  have a: "vec_at upper_row (int j - 1) = (if j = 0 then None else Some (upper_row ! (j - 1)))"
    using j by (auto simp: vec_at_def nat_diff_distrib)
  have b: "vec_at upper_row (int j + 1) =
           (if j + 1 < length upper_row then Some (upper_row ! (j + 1)) else None)"
    using j by (auto simp: vec_at_def nat_add_distrib)
  have c: "nat (int j - 1) = j - 1" "nat (int j + 1) = j + 1" by simp_all
  have d: "int_less_size (int j + 1) (length upper_row) = (j + 1 < length upper_row)"
    by (auto simp: int_less_size_def)
  have e: "(int j - 1 \<ge> 0) = (j \<noteq> 0)" by auto
  have f: "(int j + 1 < int (length upper_row)) = (j + 1 < length upper_row)" by auto
  show ?thesis
  proof (cases "j = 0")
    case True
    then show ?thesis
      unfolding validSeamOriginList_def a b d e candidate_columns_def
      using j by (auto simp: c f Let_def vec_at_def)
  next
    case False
    then have "Suc 0 < length upper_row" using j by simp
    with False show ?thesis
      unfolding validSeamOriginList_def a b d e candidate_columns_def
      using j by (auto simp: c f Let_def)
  qed
qed

lemma candidate_columns_nonempty: "j < C \<Longrightarrow> candidate_columns C j \<noteq> []"
  by (simp add: candidate_columns_def)

lemma candidate_columns_bound: "k \<in> set (candidate_columns C j) \<Longrightarrow> k < C"
  by (auto simp: candidate_columns_def split: if_splits)

lemma min_parent_value:
  assumes "j < length upper_row"
  shows "min_element_value (map ((!) upper_row) (candidate_columns (length upper_row) j))
         = Some (min_parent upper_row j)"
  using candidate_columns_nonempty[OF assms]
  by (simp add: min_element_value_Min min_parent_def)

lemma min_parent_in_row:
  assumes "j < length upper_row"
  shows "min_parent upper_row j \<in> set upper_row"
proof -
  let ?cs = "candidate_columns (length upper_row) j"
  have "Min (set (map ((!) upper_row) ?cs)) \<in> set (map ((!) upper_row) ?cs)"
    using candidate_columns_nonempty[OF assms] by (intro Min_in) simp_all
  then obtain k where "k \<in> set ?cs" "min_parent upper_row j = upper_row ! k"
    by (auto simp: min_parent_def)
  then show ?thesis using candidate_columns_bound[of k] by simp
qed

lemma cumulativeCell_rect:
  assumes i: "0 < i" "i < length result" "i < length energyMap"
    and C: "length (energyMap ! i) = C" "length (result ! (i - 1)) = C" "length (result ! i) = C"
    and j: "j < C"
  shows "cumulativeCell energyMap (int i) (int j) result =
         Some (result[i := (result ! i)[j := int_add (result ! i ! j) (min_parent (result ! (i - 1)) j)]])"
proof -
  let ?up = "result ! (i - 1)"
  have up: "vec_at result (int i - 1) = Some ?up"
    using i by (simp add: vec_at_def nat_diff_distrib)
  have jup: "j < length ?up" using C j by simp
  have vo: "validSeamOriginList ?up (int j) C =
            Some (map ((!) ?up) (candidate_columns (length ?up) j))"
    using validSeamOriginList_candidates[OF jup] C by simp
  show ?thesis
    unfolding cumulativeCell_def up using i C j vo min_parent_value[OF jup]
    by simp
qed

lemma cumulativeRow_loop:
  assumes i: "0 < i" "i < length result" "i < length energyMap"
    and C: "length (energyMap ! i) = C" "length (result ! (i - 1)) = C" "length (result ! i) = C"
  shows "for_loop [0..<C] (\<lambda>j. cumulativeCell energyMap (int i) (int j)) result =
         Some (result[i := map (\<lambda>j. int_add (result ! i ! j) (min_parent (result ! (i - 1)) j)) [0..<C]])"
proof -
  define partial where "partial j =
    result[i := map (\<lambda>c. if c < j then int_add (result ! i ! c) (min_parent (result ! (i - 1)) c)
                         else result ! i ! c) [0..<C]]" for j
  have step: "\<exists>t'. cumulativeCell energyMap (int i) (int j) t = Some t' \<and> t' = partial (Suc j)"
    if "j < C" "t = partial j" for j t
  proof -
    have ti: "t ! i = map (\<lambda>c. if c < j then int_add (result ! i ! c) (min_parent (result ! (i - 1)) c)
                         else result ! i ! c) [0..<C]"
      using that i by (simp add: partial_def)
    have tup: "t ! (i - 1) = result ! (i - 1)"
      using that i by (simp add: partial_def)
    have lt: "length t = length result" using that by (simp add: partial_def)
    have "cumulativeCell energyMap (int i) (int j) t =
         Some (t[i := (t ! i)[j := int_add (t ! i ! j) (min_parent (t ! (i - 1)) j)]])"
      by (rule cumulativeCell_rect[where C = C]) (use i C that lt ti tup in simp_all)
    moreover have "(t ! i)[j := int_add (t ! i ! j) (min_parent (t ! (i - 1)) j)] =
        map (\<lambda>c. if c < Suc j then int_add (result ! i ! c) (min_parent (result ! (i - 1)) c)
                         else result ! i ! c) [0..<C]"
      unfolding tup ti using that(1)
      by (intro nth_equalityI) (auto simp: nth_list_update less_Suc_eq)
    ultimately show ?thesis using that by (simp add: partial_def)
  qed
  have "\<exists>s'. for_loop [0..<C] (\<lambda>j. cumulativeCell energyMap (int i) (int j)) result = Some s'
              \<and> s' = partial C"
  proof (rule for_loop_upt_rule[where Inv = "\<lambda>j t. t = partial j"])
    show "0 \<le> C" by simp
    have "map (\<lambda>c. result ! i ! c) [0..<C] = result ! i"
      using C(3) by (intro nth_equalityI) simp_all
    then show "result = partial 0" using i by (simp add: partial_def)
    show "\<And>k t. 0 \<le> k \<Longrightarrow> k < C \<Longrightarrow> t = partial k \<Longrightarrow>
        \<exists>t'. cumulativeCell energyMap (int i) (int k) t = Some t' \<and> t' = partial (Suc k)"
      using step by blast
  qed
  moreover have "map (\<lambda>c. if c < C then int_add (result ! i ! c) (min_parent (result ! (i - 1)) c)
                         else result ! i ! c) [0..<C] =
      map (\<lambda>j. int_add (result ! i ! j) (min_parent (result ! (i - 1)) j)) [0..<C]"
    by (rule map_cong) simp_all
  then have "partial C =
      result[i := map (\<lambda>j. int_add (result ! i ! j) (min_parent (result ! (i - 1)) j)) [0..<C]]"
    by (simp only: partial_def)
  ultimately show ?thesis by simp
qed

lemma initCumulativeEnergyMap_rect:
  assumes ne: "energyMap \<noteq> []" and rect: "\<forall>row\<in>set energyMap. length row = C"
  shows "\<exists>CE. initCumulativeEnergyMap energyMap = Some CE \<and>
               cumulative_inv energyMap C (length energyMap) CE"
  unfolding initCumulativeEnergyMap_def
proof (rule for_loop_upt_rule[where Inv = "cumulative_inv energyMap C"])
  show "1 \<le> length energyMap" using ne by (cases energyMap) simp_all
  show "cumulative_inv energyMap C 1 energyMap"
    using rect by (simp add: cumulative_inv_def)
  fix i t
  assume i: "1 \<le> i" "i < length energyMap" and inv: "cumulative_inv energyMap C i t"
  have lt: "length t = length energyMap" using inv by (simp add: cumulative_inv_def)
  have lens: "\<And>r. r < length energyMap \<Longrightarrow> length (t ! r) = C"
    using inv by (simp add: cumulative_inv_def)
  have ti: "t ! i = energyMap ! i" using inv i by (simp add: cumulative_inv_def)
  let ?t' = "t[i := map (\<lambda>j. int_add (t ! i ! j) (min_parent (t ! (i - 1)) j)) [0..<C]]"
  have loop: "for_loop [0..<C] (\<lambda>j. cumulativeCell energyMap (int i) (int j)) t = Some ?t'"
    by (rule cumulativeRow_loop) (use i lt lens rect in simp_all)
  have body: "do { row \<leftarrow> vec_at t (int i);
        for_loop [0..<length row] (\<lambda>j. cumulativeCell energyMap (int i) (int j)) t } = Some ?t'"
    using i lt lens[of i] loop by simp
  have "cumulative_inv energyMap C (Suc i) ?t'"
    unfolding cumulative_inv_def
  proof (intro conjI allI impI)
    show "length ?t' = length energyMap" using lt by simp
    show "length (?t' ! r) = C" if "r < length energyMap" for r
      using that lens lt by (cases "r = i") simp_all
    show "?t' ! 0 = energyMap ! 0" using inv i by (simp add: cumulative_inv_def)
    show "?t' ! r ! c = int_add (energyMap ! r ! c) (min_parent (?t' ! (r - 1)) c)"
      if "0 < r \<and> r < Suc i" "c < C" for r c
    proof (cases "r = i")
      case True
      then show ?thesis using that i lt ti by simp
    next
      case False
      then have "r < i" using that by simp
      then show ?thesis using that inv by (simp add: cumulative_inv_def)
    qed
    show "?t' ! r = energyMap ! r" if "Suc i \<le> r \<and> r < length energyMap" for r
      using that inv by (simp add: cumulative_inv_def)
  qed
  then show "\<exists>t'. do { row \<leftarrow> vec_at t (int i);
        for_loop [0..<length row] (\<lambda>j. cumulativeCell energyMap (int i) (int j)) t } = Some t'
        \<and> cumulative_inv energyMap C (Suc i) t'"
    using body by simp
qed





subsection \<open>seamCarver: the main loop\<close>

declare swap_to_end.simps [simp del]

lemma swap_to_end_moves:
  "k < length row \<Longrightarrow>
   swap_to_end row (int k) (length row) = Some (take k row @ drop (Suc k) row @ [row ! k])"
proof (induction "length row - Suc k" arbitrary: row k)
  case 0
  then have k: "Suc k = length row" by simp
  then have "take k row @ [row ! k] = row"
    by (metis lessI take_Suc_conv_app_nth take_all_iff order_refl)
  then show ?case using k by (subst swap_to_end.simps) (simp add: int_less_size_def)
next
  case (Suc d)
  then have k: "Suc k < length row" by simp
  let ?row2 = "row[k := row ! Suc k, Suc k := row ! k]"
  have cond: "int_less_size (int k + 1) (length row)" using k by (simp add: int_less_size_def)
  have k1: "int k + 1 = int (Suc k)" by simp
  have unfold: "swap_to_end row (int k) (length row) = swap_to_end ?row2 (int (Suc k)) (length ?row2)"
    using k by (subst swap_to_end.simps) (simp add: cond k1 del: of_nat_Suc)
  have "swap_to_end ?row2 (int (Suc k)) (length ?row2) =
        Some (take (Suc k) ?row2 @ drop (Suc (Suc k)) ?row2 @ [?row2 ! Suc k])"
    by (rule Suc.hyps(1)) (use Suc.hyps(2) k in simp_all)
  also have "take (Suc k) ?row2 = take k row @ [row ! Suc k]"
    using k by (simp add: take_Suc_conv_app_nth)
  also have "drop (Suc (Suc k)) ?row2 = drop (Suc (Suc k)) row" by simp
  also have "?row2 ! Suc k = row ! k" using k by simp
  finally have "swap_to_end ?row2 (int (Suc k)) (length ?row2) =
      Some (take k row @ (row ! Suc k # drop (Suc (Suc k)) row) @ [row ! k])" by simp
  moreover have "row ! Suc k # drop (Suc (Suc k)) row = drop (Suc k) row"
    using k by (simp add: Cons_nth_drop_Suc)
  ultimately show ?case using unfold by simp
qed

lemma remove_seam_pixel:
  assumes "k < length row"
  shows "do { swapped \<leftarrow> swap_to_end row (int k) (length row); pop_back swapped }
         = Some (delete_at k row)"
  using assms by (simp add: swap_to_end_moves pop_back_def delete_at_def butlast_append)

lemma traceback_column_less:
  "j < length upper_row \<Longrightarrow> traceback_column upper_row j < length upper_row"
  unfolding traceback_column_def by (rule find_distance_props(1)) (rule min_parent_in_row)

lemma traceback_column_first_in_row:
  assumes "j < length upper_row"
  shows "upper_row ! traceback_column upper_row j = min_parent upper_row j"
    and "\<forall>k<traceback_column upper_row j. upper_row ! k \<noteq> min_parent upper_row j"
  unfolding traceback_column_def
  using find_distance_props(2,3)[OF min_parent_in_row[OF assms]] by simp_all

lemma traceback_rect:
  assumes i: "0 < i" "i < length cumulativeEnergyMap" "length s = length cumulativeEnergyMap"
    and C: "length (cumulativeEnergyMap ! i) = C" "length (cumulativeEnergyMap ! (i - 1)) = C"
    and c: "0 \<le> s ! i" "s ! i < int C"
  shows "traceback cumulativeEnergyMap (int i) s =
         Some (s[i - 1 := int (traceback_column (cumulativeEnergyMap ! (i - 1)) (nat (s ! i)))])"
proof -
  let ?up = "cumulativeEnergyMap ! (i - 1)"
  have up: "vec_at cumulativeEnergyMap (int i - 1) = Some ?up"
    using i by (simp add: vec_at_def nat_diff_distrib)
  have j: "nat (s ! i) < length ?up" using C c by simp
  have sj: "s ! i = int (nat (s ! i))" using c by simp
  have vo: "validSeamOriginList ?up (s ! i) C =
            Some (map ((!) ?up) (candidate_columns (length ?up) (nat (s ! i))))"
    using validSeamOriginList_candidates[OF j] C sj by simp
  have st: "vec_set s (int i - 1) x = Some (s[i - 1 := x])" for x
    using i by (simp add: vec_set_def nat_diff_distrib)
  show ?thesis
    unfolding traceback_def up using i C vo min_parent_value[OF j]
    by (simp add: st traceback_column_def)
qed

lemma carveRow_rect:
  assumes k: "k < length cumulativeEnergyMap"
    and shape: "length imageMap = length cumulativeEnergyMap"
      "\<forall>row\<in>set cumulativeEnergyMap. length row = C" "\<forall>row\<in>set imageMap. length row = C"
    and inv: "carve_inv imageMap cumulativeEnergyMap C (Suc k) state"
  shows "\<exists>state'. carveRow cumulativeEnergyMap k state = Some state' \<and>
           carve_inv imageMap cumulativeEnergyMap C k state'"
proof -
  obtain im s where state: "state = (im, s)" by (cases state)
  let ?R = "length cumulativeEnergyMap"
  note inv' = inv[unfolded state carve_inv_def prod.case]
  have lim: "length im = ?R" and ls: "length s = ?R" using inv' by simp_all
  have untouched: "\<And>r. r < Suc k \<Longrightarrow> im ! r = imageMap ! r" using inv' by blast
  have carved: "\<And>r. Suc k \<le> r \<Longrightarrow> r < ?R \<Longrightarrow> im ! r = delete_at (nat (s ! r)) (imageMap ! r)"
    using inv' by blast
  have range: "\<And>r. Suc k \<le> Suc r \<Longrightarrow> r < ?R \<Longrightarrow> 0 \<le> s ! r \<and> s ! r < int C"
    using inv' by blast
  have seed: "s ! (?R - 1) = int (min_element (cumulativeEnergyMap ! (?R - 1)))"
    using inv' by blast
  have linked: "\<And>r. Suc k \<le> r \<Longrightarrow> 0 < r \<Longrightarrow> r < ?R \<Longrightarrow>
      s ! (r - 1) = int (traceback_column (cumulativeEnergyMap ! (r - 1)) (nat (s ! r)))"
    using inv' by blast
  have lenCE: "\<And>r. r < ?R \<Longrightarrow> length (cumulativeEnergyMap ! r) = C" using shape(2) by simp
  have lenI: "\<And>r. r < ?R \<Longrightarrow> length (imageMap ! r) = C" using shape(1,3) by simp
  have sk: "0 \<le> s ! k" "s ! k < int C" using range[of k] k by simp_all
  have skn: "s ! k = int (nat (s ! k))" using sk by simp
  have imk: "im ! k = imageMap ! k" using untouched by simp
  have nk: "nat (s ! k) < length (imageMap ! k)" using sk lenI[OF k] by simp
  have remove: "do { swapped \<leftarrow> swap_to_end (imageMap ! k) (s ! k) C; pop_back swapped }
      = Some (delete_at (nat (s ! k)) (imageMap ! k))"
    using remove_seam_pixel[OF nk] lenI[OF k] skn by simp
  let ?im' = "im[k := delete_at (nat (s ! k)) (imageMap ! k)]"
  let ?s' = "if 0 < k
             then s[k - 1 := int (traceback_column (cumulativeEnergyMap ! (k - 1)) (nat (s ! k)))]
             else s"
  have tb: "traceback cumulativeEnergyMap (int k) s =
      Some (s[k - 1 := int (traceback_column (cumulativeEnergyMap ! (k - 1)) (nat (s ! k)))])"
    if "0 < k"
    by (rule traceback_rect[where C = C]) (use that k ls lenCE sk in simp_all)
  have run: "carveRow cumulativeEnergyMap k state = Some (?im', ?s')"
  proof -
    have "carveRow cumulativeEnergyMap k state =
        do { shorter \<leftarrow> do { swapped \<leftarrow> swap_to_end (imageMap ! k) (s ! k) C; pop_back swapped };
             imageMap' \<leftarrow> vec_set im (int k) shorter;
             (if int k - 1 \<ge> 0
              then do { seam_column_indices' \<leftarrow> traceback cumulativeEnergyMap (int k) s;
                        Some (imageMap', seam_column_indices') }
              else Some (imageMap', s)) }"
      unfolding carveRow_def state using k lim ls lenCE[OF k] imk by simp
    also have "\<dots> = Some (?im', ?s')"
      unfolding remove using k lim tb by (cases "k = 0") auto
    finally show ?thesis .
  qed
  define s' where "s' = ?s'"
  have ls': "length s' = ?R" using ls by (simp add: s'_def)
  have keep: "s' ! r = s ! r" if "k \<le> r" for r
    using that by (auto simp: s'_def)
  have new: "s' ! (k - 1) = int (traceback_column (cumulativeEnergyMap ! (k - 1)) (nat (s ! k)))"
    if "0 < k"
    using that k ls by (simp add: s'_def)
  have "carve_inv imageMap cumulativeEnergyMap C k (?im', s')"
    unfolding carve_inv_def prod.case
  proof (intro conjI allI impI)
    show "length ?im' = ?R" using lim by simp
    show "length s' = ?R" by (rule ls')
    show "?im' ! r = imageMap ! r" if "r < k" for r
      using that untouched[of r] by simp
    show "?im' ! r = delete_at (nat (s' ! r)) (imageMap ! r)" if "k \<le> r \<and> r < ?R" for r
    proof (cases "r = k")
      case True
      then show ?thesis using k lim keep[of k] by simp
    next
      case False
      then show ?thesis using that carved[of r] keep[of r] by simp
    qed
    have in_range: "0 \<le> s' ! r \<and> s' ! r < int C" if "k \<le> Suc r \<and> r < ?R" for r
    proof (cases "Suc r = k")
      case True
      have "nat (s ! k) < length (cumulativeEnergyMap ! (k - 1))"
        using sk lenCE[of "k - 1"] k by simp
      then have "traceback_column (cumulativeEnergyMap ! (k - 1)) (nat (s ! k)) < C"
        using traceback_column_less[of "nat (s ! k)" "cumulativeEnergyMap ! (k - 1)"]
          lenCE[of "k - 1"] k by simp
      moreover have "r = k - 1" "0 < k" using True by simp_all
      ultimately show ?thesis using new by simp
    next
      case False
      then have "k \<le> r" using that by simp
      then show ?thesis using that range[of r] keep[of r] by simp
    qed
    show "0 \<le> s' ! r" if "k \<le> Suc r \<and> r < ?R" for r
      using in_range[OF that] by simp
    show "s' ! r < int C" if "k \<le> Suc r \<and> r < ?R" for r
      using in_range[OF that] by simp
    show "s' ! (?R - 1) = int (min_element (cumulativeEnergyMap ! (?R - 1)))"
      using seed k keep[of "?R - 1"] by simp
    show "s' ! (r - 1) = int (traceback_column (cumulativeEnergyMap ! (r - 1)) (nat (s' ! r)))"
      if "k \<le> r \<and> 0 < r \<and> r < ?R" for r
    proof (cases "r = k")
      case True
      then show ?thesis using that new keep[of k] by simp
    next
      case False
      then have "k \<le> r - 1" using that by arith
      then show ?thesis using that False linked[of r] keep[of r] keep[of "r - 1"] by simp
    qed
  qed
  then show ?thesis using run by (simp add: s'_def)
qed

lemma seamCarver_state_rect:
  assumes ne: "cumulativeEnergyMap \<noteq> []" and C: "0 < C"
    and shape: "length imageMap = length cumulativeEnergyMap"
      "\<forall>row\<in>set cumulativeEnergyMap. length row = C" "\<forall>row\<in>set imageMap. length row = C"
  shows "\<exists>state. seamCarver_state imageMap cumulativeEnergyMap = Some state \<and>
           carve_inv imageMap cumulativeEnergyMap C 0 state"
proof -
  let ?R = "length cumulativeEnergyMap"
  let ?s0 = "take ?R [-1] @ replicate (?R - 1) (0::int)"
  let ?last = "cumulativeEnergyMap ! (?R - 1)"
  let ?s1 = "?s0[?R - 1 := int (min_element ?last)]"
  have R: "0 < ?R" using ne by simp
  have ls0: "length ?s0 = ?R" using R by (cases "?R") simp_all
  have n1: "nat (int ?R - 1) = ?R - 1" by arith
  have last: "vec_at cumulativeEnergyMap (int ?R - 1) = Some ?last"
    using R by (simp add: vec_at_def n1)
  have store: "vec_set ?s0 (int ?R - 1) x = Some (?s0[?R - 1 := x])" for x
    using R ls0 by (simp add: vec_set_def n1 del: length_append)
  have lenlast: "length ?last = C" using shape(2) R by simp
  then have "?last \<noteq> []" using C by auto
  then have seed: "min_element ?last < C" using min_element_props(1)[of ?last] lenlast by simp
  have init: "carve_inv imageMap cumulativeEnergyMap C ?R (imageMap, ?s1)"
    unfolding carve_inv_def prod.case
  proof (intro conjI allI impI)
    show "length imageMap = ?R" by (rule shape(1))
    show "length ?s1 = ?R" using ls0 by simp
    show "?s1 ! (?R - 1) = int (min_element ?last)" using ls0 R by simp
    show "0 \<le> ?s1 ! r" if "?R \<le> Suc r \<and> r < ?R" for r
    proof -
      have "r = ?R - 1" using that by arith
      then show ?thesis using ls0 R by simp
    qed
    show "?s1 ! r < int C" if "?R \<le> Suc r \<and> r < ?R" for r
    proof -
      have "r = ?R - 1" using that by arith
      then show ?thesis using ls0 R seed by simp
    qed
  qed auto
  have "\<exists>state. for_loop (rev [0..<?R]) (carveRow cumulativeEnergyMap) (imageMap, ?s1) = Some state
          \<and> carve_inv imageMap cumulativeEnergyMap C 0 state"
  proof (rule for_loop_down_rule[where Inv = "carve_inv imageMap cumulativeEnergyMap C"])
    show "carve_inv imageMap cumulativeEnergyMap C ?R (imageMap, ?s1)" by (rule init)
    show "\<And>k t. k < ?R \<Longrightarrow> carve_inv imageMap cumulativeEnergyMap C (Suc k) t \<Longrightarrow>
        \<exists>t'. carveRow cumulativeEnergyMap k t = Some t' \<and>
             carve_inv imageMap cumulativeEnergyMap C k t'"
      using carveRow_rect[OF _ shape] by blast
  qed
  then show ?thesis
    unfolding seamCarver_state_def Let_def last store by simp
qed

subsection \<open>seamCarver: removal and bounds\<close>

text \<open>
  Claim C5. For an intensity grid of \<open>R\<close> rows and \<open>C \<ge> 2\<close> columns and a cumulative grid
  of the same shape, the removal phase of \<open>seamCarver\<close> leaves \<open>R\<close> rows of \<open>C - 1\<close>
  elements, each the original row with the element at that row's seam column deleted
  and the others in their order.
\<close>

theorem seamCarver_removes_seam:
  assumes "cumulativeEnergyMap \<noteq> []" and "2 \<le> C"
    and "length imageMap = length cumulativeEnergyMap"
    and "\<forall>row\<in>set cumulativeEnergyMap. length row = C"
    and "\<forall>row\<in>set imageMap. length row = C"
  shows "\<exists>im s. seamCarver_state imageMap cumulativeEnergyMap = Some (im, s) \<and>
           seamCarver imageMap cumulativeEnergyMap = Some im \<and>
           length im = length imageMap \<and> length s = length imageMap \<and>
           (\<forall>i<length imageMap.
              0 \<le> s ! i \<and> s ! i < int C \<and> length (im ! i) = C - 1 \<and>
              im ! i = take (nat (s ! i)) (imageMap ! i) @ drop (Suc (nat (s ! i))) (imageMap ! i))"
proof -
  have C: "0 < C" using assms(2) by simp
  from seamCarver_state_rect[OF assms(1) C assms(3,4,5)]
  obtain im s where run: "seamCarver_state imageMap cumulativeEnergyMap = Some (im, s)"
    and inv: "carve_inv imageMap cumulativeEnergyMap C 0 (im, s)"
    by auto
  note inv' = inv[unfolded carve_inv_def prod.case]
  have lens: "length im = length imageMap" "length s = length imageMap"
    using inv' assms(3) by simp_all
  have rows: "0 \<le> s ! i \<and> s ! i < int C \<and> length (im ! i) = C - 1 \<and>
              im ! i = take (nat (s ! i)) (imageMap ! i) @ drop (Suc (nat (s ! i))) (imageMap ! i)"
    if "i < length imageMap" for i
  proof -
    have i: "i < length cumulativeEnergyMap" using that assms(3) by simp
    have r: "0 \<le> s ! i" "s ! i < int C" using inv' i by simp_all
    have d: "im ! i = delete_at (nat (s ! i)) (imageMap ! i)" using inv' i by simp
    have l: "length (imageMap ! i) = C" using assms(5) that by simp
    have "nat (s ! i) < C" using r C by simp
    then have "length (delete_at (nat (s ! i)) (imageMap ! i)) = C - 1"
      using l by (simp add: delete_at_def)
    then show ?thesis using r d by (simp add: delete_at_def)
  qed
  have "seamCarver imageMap cumulativeEnergyMap = Some im"
    using run by (simp add: seamCarver_def)
  then show ?thesis using run lens rows by blast
qed

theorem seamCarver_removes_seam_witness:
  "\<exists>im s. seamCarver_state [[1, 2, 3], [4, 5, 6], [7, 8, 9]]
             [[4, 5, 4], [11, 12, 11], [15, 16, 15]] = Some (im, s) \<and>
          seamCarver [[1, 2, 3], [4, 5, 6], [7, 8, 9]]
             [[4, 5, 4], [11, 12, 11], [15, 16, 15]] = Some im \<and>
          length im = 3 \<and> length s = 3 \<and> length (im ! 0) = 2"
proof -
  let ?I = "[[1, 2, 3], [4, 5, 6], [7, 8, 9 :: int]]"
  let ?CE = "[[4, 5, 4], [11, 12, 11], [15, 16, 15 :: int]]"
  have h1: "?CE \<noteq> []" by simp
  have h2: "(2::nat) \<le> 3" by simp
  have h3: "length ?I = length ?CE" by simp
  have h4: "\<forall>row\<in>set ?CE. length row = 3" by simp
  have h5: "\<forall>row\<in>set ?I. length row = 3" by simp
  from seamCarver_removes_seam[OF h1 h2 h3 h4 h5]
  obtain im s where r: "seamCarver_state ?I ?CE = Some (im, s)" "seamCarver ?I ?CE = Some im"
    "length im = length ?I" "length s = length ?I"
    "\<forall>i<length ?I. 0 \<le> s ! i \<and> s ! i < int 3 \<and> length (im ! i) = 3 - 1 \<and>
              im ! i = take (nat (s ! i)) (?I ! i) @ drop (Suc (nat (s ! i))) (?I ! i)"
    by blast
  have "(0::nat) < length ?I" by simp
  with r(5) have "length (im ! 0) = 3 - 1" by blast
  then show ?thesis using r(1-4) by auto
qed

text \<open>
  Claim C10. For grids of the same rectangular shape with at least 1 row and 1 column,
  every access of \<open>seamCarver\<close> is in bounds (the function returns): the seed index is in
  \<open>[0, C - 1]\<close>, the value searched in the row above is an element of that row, so the
  search succeeds, and every stored seam column is in \<open>[0, C - 1]\<close>.
\<close>

theorem seamCarver_in_bounds:
  assumes "cumulativeEnergyMap \<noteq> []" and "0 < C"
    and "length imageMap = length cumulativeEnergyMap"
    and "\<forall>row\<in>set cumulativeEnergyMap. length row = C"
    and "\<forall>row\<in>set imageMap. length row = C"
  shows "\<exists>im s. seamCarver_state imageMap cumulativeEnergyMap = Some (im, s) \<and>
           length s = length cumulativeEnergyMap \<and>
           s ! (length cumulativeEnergyMap - 1) =
             int (min_element (cumulativeEnergyMap ! (length cumulativeEnergyMap - 1))) \<and>
           min_element (cumulativeEnergyMap ! (length cumulativeEnergyMap - 1)) < C \<and>
           (\<forall>i. 0 < i \<and> i < length cumulativeEnergyMap \<longrightarrow>
              min_parent (cumulativeEnergyMap ! (i - 1)) (nat (s ! i))
                \<in> set (cumulativeEnergyMap ! (i - 1)) \<and>
              s ! (i - 1) = int (find_distance (cumulativeEnergyMap ! (i - 1))
                                  (min_parent (cumulativeEnergyMap ! (i - 1)) (nat (s ! i)))) \<and>
              find_distance (cumulativeEnergyMap ! (i - 1))
                 (min_parent (cumulativeEnergyMap ! (i - 1)) (nat (s ! i))) < C) \<and>
           (\<forall>i<length cumulativeEnergyMap. 0 \<le> s ! i \<and> s ! i < int C)"
proof -
  let ?R = "length cumulativeEnergyMap"
  from seamCarver_state_rect[OF assms]
  obtain im s where run: "seamCarver_state imageMap cumulativeEnergyMap = Some (im, s)"
    and inv: "carve_inv imageMap cumulativeEnergyMap C 0 (im, s)"
    by auto
  note inv' = inv[unfolded carve_inv_def prod.case]
  have ls: "length s = ?R" using inv' by simp
  have range: "0 \<le> s ! i \<and> s ! i < int C" if "i < ?R" for i using inv' that by simp
  have seed: "s ! (?R - 1) = int (min_element (cumulativeEnergyMap ! (?R - 1)))"
    using inv' by simp
  have "?R - 1 < ?R" using assms(1) by simp
  from range[OF this] seed have seed_lt: "min_element (cumulativeEnergyMap ! (?R - 1)) < C"
    by simp
  have step: "min_parent (cumulativeEnergyMap ! (i - 1)) (nat (s ! i))
                \<in> set (cumulativeEnergyMap ! (i - 1)) \<and>
              s ! (i - 1) = int (find_distance (cumulativeEnergyMap ! (i - 1))
                                  (min_parent (cumulativeEnergyMap ! (i - 1)) (nat (s ! i)))) \<and>
              find_distance (cumulativeEnergyMap ! (i - 1))
                 (min_parent (cumulativeEnergyMap ! (i - 1)) (nat (s ! i))) < C"
    if "0 < i \<and> i < ?R" for i
  proof -
    have im1: "i - 1 < ?R" using that by arith
    then have "cumulativeEnergyMap ! (i - 1) \<in> set cumulativeEnergyMap" by (rule nth_mem)
    then have l: "length (cumulativeEnergyMap ! (i - 1)) = C" using assms(4) by blast
    have j: "nat (s ! i) < length (cumulativeEnergyMap ! (i - 1))"
      using range[of i] that l assms(2) by auto
    have "s ! (i - 1) = int (traceback_column (cumulativeEnergyMap ! (i - 1)) (nat (s ! i)))"
      using inv' that by simp
    then show ?thesis
      using min_parent_in_row[OF j] range[OF im1] by (simp add: traceback_column_def)
  qed
  show ?thesis using run ls seed seed_lt step range by blast
qed

theorem seamCarver_in_bounds_witness:
  "\<exists>im s. seamCarver_state [[0, 0, 0, 0], [0, 1, 0, 0]] [[0, 1, 0, 0], [1, 3, 1, 0]] = Some (im, s) \<and>
          length s = 2 \<and> 0 \<le> s ! 0 \<and> s ! 0 < 4 \<and> 0 \<le> s ! 1 \<and> s ! 1 < 4"
proof -
  let ?I = "[[0, 0, 0, 0], [0, 1, 0, 0 :: int]]"
  let ?CE = "[[0, 1, 0, 0], [1, 3, 1, 0 :: int]]"
  have h1: "?CE \<noteq> []" by simp
  have h2: "(0::nat) < 4" by simp
  have h3: "length ?I = length ?CE" by simp
  have h4: "\<forall>row\<in>set ?CE. length row = 4" by simp
  have h5: "\<forall>row\<in>set ?I. length row = 4" by simp
  from seamCarver_in_bounds[OF h1 h2 h3 h4 h5]
  obtain im s where r: "seamCarver_state ?I ?CE = Some (im, s)" "length s = length ?CE"
    "\<forall>i<length ?CE. 0 \<le> s ! i \<and> s ! i < int 4"
    by blast
  have "(0::nat) < length ?CE" "(1::nat) < length ?CE" by simp_all
  with r(3) have "0 \<le> s ! 0 \<and> s ! 0 < int 4" "0 \<le> s ! 1 \<and> s ! 1 < int 4" by blast+
  then show ?thesis using r(1,2) by auto
qed

subsection \<open>seamCarver: the seam that is traced back\<close>

text \<open>
  Claim C1. For an intensity grid with at least 1 row and 2 columns and its cumulative
  grid, the seam that \<open>seamCarver\<close> identifies has one column per row, and the columns of
  consecutive rows differ by at most 1. The code breaks the second part: on the image
  \<open>[[0,0,1],[1,0,1]]\<close> the last row of the cumulative grid has its minimum in column 2,
  the candidates above it (columns 1 and 2) both hold 1, and the search for the value 1
  in the whole row above stops at column 0.
\<close>

theorem seamCarver_seam_not_adjacent:
  "initEnergyMap [[0, 0, 1], [1, 0, 1]] = Some [[1, 1, 1], [2, 2, 1]] \<and>
   initCumulativeEnergyMap [[1, 1, 1], [2, 2, 1]] = Some [[1, 1, 1], [3, 3, 2]] \<and>
   seam [[0, 0, 1], [1, 0, 1]] [[1, 1, 1], [3, 3, 2]] = Some [0, 2] \<and>
   \<not> adjacent_seam [0, 2]"
  by code_simp

lemma hd_filter_upt:
  assumes "k < n" and "P k" and "\<forall>i<k. \<not> P i"
  shows "hd (filter P [0..<n]) = k"
proof -
  have "[0..<n] = [0..<k] @ [k..<n]"
    using assms(1) upt_add_eq_append[of 0 k "n - k"] by simp
  moreover have "[k..<n] = k # [Suc k..<n]" using assms(1) by (rule upt_conv_Cons)
  ultimately have "[0..<n] = [0..<k] @ k # [Suc k..<n]" by simp
  moreover have "filter P [0..<k] = []" using assms(3) by (simp add: filter_empty_conv)
  ultimately show ?thesis using assms(2) by simp
qed

lemma min_element_reference_seed:
  assumes "v \<noteq> []"
  shows "min_element v = reference_seed v"
proof -
  have val: "v ! min_element v = Min (set v)"
    using min_element_value_Min[OF assms] min_element_props(1)[OF assms]
    by (simp add: min_element_value_def)
  have before: "\<forall>i<min_element v. v ! i \<noteq> Min (set v)"
    using min_element_props(3)[OF assms] val by force
  have "hd (filter (\<lambda>k. v ! k = Min (set v)) [0..<length v]) = min_element v"
    by (rule hd_filter_upt) (use min_element_props(1)[OF assms] val before in simp_all)
  then show ?thesis by (simp add: reference_seed_def leftmost_minimum_def map_nth)
qed

lemma seam_seed_is_reference_seed:
  assumes "cumulativeEnergyMap \<noteq> []" and "0 < C"
    and "length imageMap = length cumulativeEnergyMap"
    and "\<forall>row\<in>set cumulativeEnergyMap. length row = C"
    and "\<forall>row\<in>set imageMap. length row = C"
  shows "\<exists>s. seam imageMap cumulativeEnergyMap = Some s \<and>
             s ! (length cumulativeEnergyMap - 1) = int (reference_seed (last cumulativeEnergyMap))"
proof -
  from seamCarver_state_rect[OF assms]
  obtain im s where run: "seamCarver_state imageMap cumulativeEnergyMap = Some (im, s)"
    and inv: "carve_inv imageMap cumulativeEnergyMap C 0 (im, s)"
    by auto
  have l: "last cumulativeEnergyMap = cumulativeEnergyMap ! (length cumulativeEnergyMap - 1)"
    using assms(1) by (rule last_conv_nth)
  have "last cumulativeEnergyMap \<in> set cumulativeEnergyMap" using assms(1) by simp
  then have "last cumulativeEnergyMap \<noteq> []" using assms(2,4) by auto
  then have "min_element (last cumulativeEnergyMap) = reference_seed (last cumulativeEnergyMap)"
    by (rule min_element_reference_seed)
  then have "s ! (length cumulativeEnergyMap - 1) = int (reference_seed (last cumulativeEnergyMap))"
    using inv l by (simp add: carve_inv_def)
  then show ?thesis using run by (simp add: seam_def)
qed

text \<open>
  Claim C2. Phase 1 of \<open>seamCarver\<close> computes the reference backtrace: the seed is the
  leftmost minimum of the last row, and each step takes the leftmost of the in-range
  candidates \<open>j - 1\<close>, \<open>j\<close>, \<open>j + 1\<close> whose value is the candidates' minimum. The code
  differs in the step: on the image \<open>[[0,0,0,0],[0,1,0,0]]\<close> the reference seam is
  \<open>[2, 3]\<close> and the code's seam is \<open>[0, 3]\<close>.
\<close>

theorem seamCarver_seam_differs_from_reference:
  "initEnergyMap [[0, 0, 0, 0], [0, 1, 0, 0]] = Some [[0, 1, 0, 0], [1, 3, 1, 0]] \<and>
   initCumulativeEnergyMap [[0, 1, 0, 0], [1, 3, 1, 0]] = Some [[0, 1, 0, 0], [1, 3, 1, 0]] \<and>
   seam [[0, 0, 0, 0], [0, 1, 0, 0]] [[0, 1, 0, 0], [1, 3, 1, 0]] = Some [0, 3] \<and>
   reference_seed [1, 3, 1, 0] = 3 \<and> reference_step [0, 1, 0, 0] 3 = 2 \<and>
   reference_seam [[0, 1, 0, 0], [1, 3, 1, 0]] = [2, 3]"
  by code_simp

subsection \<open>The pipeline on the example of the specification\<close>

text \<open>
  Claim C6. On the intensity grid \<open>[[1,2,3],[4,5,6],[7,8,9]]\<close> the pipeline produces the
  energy grid \<open>[[4,5,4],[7,8,7],[4,5,4]]\<close>, the cumulative grid
  \<open>[[4,5,4],[11,12,11],[15,16,15]]\<close>, the seam of column 0 in every row, and the
  intensity grid \<open>[[2,3],[5,6],[8,9]]\<close> after removal.
\<close>

theorem pipeline_example:
  "initEnergyMap [[1, 2, 3], [4, 5, 6], [7, 8, 9]] = Some [[4, 5, 4], [7, 8, 7], [4, 5, 4]] \<and>
   initCumulativeEnergyMap [[4, 5, 4], [7, 8, 7], [4, 5, 4]] =
     Some [[4, 5, 4], [11, 12, 11], [15, 16, 15]] \<and>
   seam [[1, 2, 3], [4, 5, 6], [7, 8, 9]] [[4, 5, 4], [11, 12, 11], [15, 16, 15]] =
     Some [0, 0, 0] \<and>
   seamCarver [[1, 2, 3], [4, 5, 6], [7, 8, 9]] [[4, 5, 4], [11, 12, 11], [15, 16, 15]] =
     Some [[2, 3], [5, 6], [8, 9]]"
  by code_simp

subsection \<open>main: the argument check and a raster of one column\<close>

text \<open>
  Claim C9. An invocation with the wrong number of arguments writes the usage error and
  goes on: the program loads the raster and runs the pipeline. This holds when the
  vector still holds a file name (\<open>argc \<ge> 2\<close>): the run is the one of a valid invocation
  on the same file, with the usage error written first. With \<open>argc < 2\<close> there is no
  \<open>argv[1]\<close> to load.
\<close>

theorem main_wrong_argument_count:
  assumes "length argv \<noteq> 4" and "2 \<le> length argv"
  shows "cerr (main files argv) = UsageError # cerr (main files [argv ! 0, argv ! 1, v, h]) \<and>
         cout (main files argv) = cout (main files [argv ! 0, argv ! 1, v, h]) \<and>
         status (main files argv) = status (main files [argv ! 0, argv ! 1, v, h])"
proof -
  have a: "vec_at argv 1 = Some (argv ! 1)" using assms(2) by (simp add: vec_at_def)
  have b: "vec_at [argv ! 0, argv ! 1, v, h] 1 = Some (argv ! 1)" by (simp add: vec_at_def)
  show ?thesis
    unfolding main_def a b Let_def using assms(1)
    by (simp split: prod.splits outcome.splits option.splits)
qed

theorem main_wrong_argument_count_witness:
  "cerr (main (single_file ''a.pgm'' (pgm 1 1 255 [5])) [''./a'', ''a.pgm'']) =
     UsageError # cerr (main (single_file ''a.pgm'' (pgm 1 1 255 [5])) [''./a'', ''a.pgm'', ''1'', ''0'']) \<and>
   cout (main (single_file ''a.pgm'' (pgm 1 1 255 [5])) [''./a'', ''a.pgm'']) =
     cout (main (single_file ''a.pgm'' (pgm 1 1 255 [5])) [''./a'', ''a.pgm'', ''1'', ''0'']) \<and>
   status (main (single_file ''a.pgm'' (pgm 1 1 255 [5])) [''./a'', ''a.pgm'']) =
     status (main (single_file ''a.pgm'' (pgm 1 1 255 [5])) [''./a'', ''a.pgm'', ''1'', ''0''])"
  using main_wrong_argument_count[of "[''./a'', ''a.pgm'']"
      "single_file ''a.pgm'' (pgm 1 1 255 [5])" "''1''" "''0''"]
  by simp

theorem main_without_file_argument:
  "main no_files [''./a''] =
     \<lparr>cerr = [UsageError], cout = [Banner], status = Stops UndefinedBehaviour\<rparr>"
  by (simp add: main_def vec_at_def)

lemma seamCarver_single_column:
  assumes "cumulativeEnergyMap \<noteq> []" and "length imageMap = length cumulativeEnergyMap"
    and "\<forall>row\<in>set cumulativeEnergyMap. length row = 1"
    and "\<forall>row\<in>set imageMap. length row = 1"
  shows "seamCarver imageMap cumulativeEnergyMap = Some (replicate (length imageMap) [])"
proof -
  have one: "(0::nat) < 1" by simp
  from seamCarver_state_rect[OF assms(1) one assms(2,3,4)]
  obtain im s where run: "seamCarver_state imageMap cumulativeEnergyMap = Some (im, s)"
    and inv: "carve_inv imageMap cumulativeEnergyMap 1 0 (im, s)"
    by auto
  note inv' = inv[unfolded carve_inv_def prod.case]
  have len: "length im = length imageMap" using inv' assms(2) by simp
  have "im ! i = []" if "i < length imageMap" for i
  proof -
    have i: "i < length cumulativeEnergyMap" using that assms(2) by simp
    have "0 \<le> s ! i \<and> s ! i < int 1" using inv' i by simp
    then have "nat (s ! i) = 0" by simp
    moreover have "im ! i = delete_at (nat (s ! i)) (imageMap ! i)" using inv' i by simp
    moreover have "length (imageMap ! i) = 1" using assms(4) that by simp
    ultimately show ?thesis by (simp add: delete_at_def)
  qed
  then have "im = replicate (length imageMap) []"
    using len by (intro nth_equalityI) simp_all
  then show ?thesis using run by (simp add: seamCarver_def)
qed

text \<open>
  Claim C7. When seam removal is requested on a grid of one column or less, the core
  reports a precondition violation instead of going on silently. The code has no such
  check. On a loaded image of one column (and at least one row) the program writes
  nothing to \<open>cerr\<close> beyond the usage error of a wrong argument count, \<open>seamCarver\<close>
  returns, the image displayed last has every row empty, and \<open>main\<close> returns 0.
\<close>

theorem main_single_column_silent:
  assumes "2 \<le> length argv" and "initImageMap files (argv ! 1) = (msgs, Returns I)"
    and "I \<noteq> []" and "\<forall>row\<in>set I. length row = 1"
  shows "cerr (main files argv) = (if length argv \<noteq> 4 then [UsageError] else []) \<and>
         status (main files argv) = Returns 0 \<and>
         last (cout (main files argv)) = SeamCarvedImage (replicate (length I) [])"
proof -
  have arg: "vec_at argv 1 = Some (argv ! 1)" using assms(1) by (simp add: vec_at_def)
  have msgs: "msgs = []" using assms(2) by (rule initImageMap_returns_silent)
  let ?E = "map (\<lambda>i. map (wrapped_energy I i) [0..<1]) [0..<length I]"
  have E: "initEnergyMap I = Some ?E" by (rule initEnergyMap_rect) (rule assms(4))
  have Ene: "?E \<noteq> []" using assms(3) by simp
  have Erect: "\<forall>row\<in>set ?E. length row = 1" by simp
  from initCumulativeEnergyMap_rect[OF Ene Erect]
  obtain CE where CE: "initCumulativeEnergyMap ?E = Some CE"
    and inv: "cumulative_inv ?E 1 (length ?E) CE"
    by blast
  have lCE: "length CE = length I" using inv by (simp add: cumulative_inv_def)
  have rows: "\<forall>r<length I. length (CE ! r) = 1" using inv by (simp add: cumulative_inv_def)
  have CErect: "\<forall>row\<in>set CE. length row = 1"
    using rows lCE by (auto simp: in_set_conv_nth)
  have CEne: "CE \<noteq> []" using lCE assms(3) by auto
  have carve: "seamCarver I CE = Some (replicate (length I) [])"
    by (rule seamCarver_single_column) (use CEne lCE CErect assms(4) in simp_all)
  show ?thesis
    unfolding main_def arg Let_def using assms(2) msgs E CE carve by simp
qed

theorem main_single_column_silent_witness:
  "cerr (main (single_file ''a.pgm'' (pgm 1 2 255 [5, 7])) [''./a'', ''a.pgm'', ''1'', ''0'']) = [] \<and>
   status (main (single_file ''a.pgm'' (pgm 1 2 255 [5, 7])) [''./a'', ''a.pgm'', ''1'', ''0''])
     = Returns 0 \<and>
   last (cout (main (single_file ''a.pgm'' (pgm 1 2 255 [5, 7])) [''./a'', ''a.pgm'', ''1'', ''0'']))
     = SeamCarvedImage [[], []]"
proof -
  let ?files = "single_file ''a.pgm'' (pgm 1 2 255 [5, 7])"
  let ?argv = "[''./a'', ''a.pgm'', ''1'', ''0'']"
  have h1: "2 \<le> length ?argv" by simp
  have h2: "initImageMap ?files (?argv ! 1) = ([], Returns [[5], [7]])" by code_simp
  have h3: "[[5], [7 :: int]] \<noteq> []" by simp
  have h4: "\<forall>row\<in>set [[5], [7 :: int]]. length row = 1" by simp
  show ?thesis
    using main_single_column_silent[OF h1 h2 h3 h4] by (simp add: numeral_2_eq_2)
qed

theorem main_one_pixel_no_report:
  "main (single_file ''a.pgm'' (pgm 1 1 255 [5])) [''./a'', ''a.pgm'', ''1'', ''0''] =
     \<lparr>cerr = [],
      cout = [Banner, ImageMapFor ''a.pgm'' [[5]], EnergyMap [[0]], CumulativeEnergyMap [[0]],
              SeamCarvedImage [[]]],
      status = Returns 0\<rparr>"
  by code_simp

end
